theory Spec2Isabelle
  imports Complex_Main
begin

section \<open>Python strings\<close>

text \<open>
  A Python \<open>str\<close> is a sequence of Unicode code points; \<open>len\<close>, indexing, \<open>in\<close>,
  \<open>strip\<close>, \<open>split\<close> and the \<open>re\<close> module all work on code points. A string is
  therefore a list of code-point numbers. The source's Chinese literals are written as
  their code points; ASCII literals are written with \<open>asc\<close>.
\<close>

type_synonym str = "nat list"

definition asc :: "string \<Rightarrow> str" where
  "asc s = map of_char s"

text \<open>
  The parts of the interpreter that the source relies on and that are large tables or
  settings of the running Python rather than code of the repository:
  \<^item> \<open>rt_decimal c\<close>: the decimal value of \<open>c\<close> when \<open>c\<close> is a Unicode decimal digit
    (category Nd: what \<open>\d\<close> matches in a \<open>str\<close> pattern and what \<open>int\<close> accepts);
  \<^item> \<open>rt_lower\<close>: \<open>str.lower\<close>;
  \<^item> \<open>rt_int_max_str_digits\<close>: the limit of \<open>sys.set_int_max_str_digits\<close> on the
    number of digits that \<open>int(str)\<close> and \<open>str(int)\<close> convert (4300 by default since
    Python 3.11; 0 for no limit, which is also the behaviour of older interpreters; the
    interpreter accepts no other value below 640).
\<close>

record py_runtime =
  rt_decimal :: "nat \<Rightarrow> nat option"
  rt_lower :: "str \<Rightarrow> str"
  rt_int_max_str_digits :: nat

text \<open>\<open>s.startswith(p)\<close> and \<open>kw in s\<close> (substring containment).\<close>

fun startswith :: "str \<Rightarrow> str \<Rightarrow> bool" where
  "startswith s [] = True"
| "startswith [] (p # ps) = False"
| "startswith (c # cs) (p # ps) = (c = p \<and> startswith cs ps)"

fun contains :: "str \<Rightarrow> str \<Rightarrow> bool" where
  "contains [] kw = (kw = [])"
| "contains (c # cs) kw = (startswith (c # cs) kw \<or> contains cs kw)"

text \<open>\<open>any(kw in s for kw in kws)\<close>\<close>

definition any_in :: "str \<Rightarrow> str list \<Rightarrow> bool" where
  "any_in s kws = list_ex (\<lambda>kw. contains s kw) kws"

text \<open>
  \<open>str.isspace\<close> on one code point, which is also what \<open>str.strip()\<close>, \<open>str.split()\<close>
  and the pattern \<open>\s\<close> use: U+0009..U+000D, U+001C..U+0020, U+0085, U+00A0, U+1680,
  U+2000..U+200A, U+2028, U+2029, U+202F, U+205F, U+3000.
\<close>

definition isspace :: "nat \<Rightarrow> bool" where
  "isspace c \<longleftrightarrow>
     (9 \<le> c \<and> c \<le> 13) \<or> (28 \<le> c \<and> c \<le> 32) \<or> c = 133 \<or> c = 160 \<or> c = 5760 \<or>
     (8192 \<le> c \<and> c \<le> 8202) \<or> c = 8232 \<or> c = 8233 \<or> c = 8239 \<or> c = 8287 \<or>
     c = 12288"

definition lstrip :: "str \<Rightarrow> str" where
  "lstrip s = dropWhile isspace s"

definition rstrip :: "str \<Rightarrow> str" where
  "rstrip s = rev (dropWhile isspace (rev s))"

definition strip :: "str \<Rightarrow> str" where
  "strip s = rstrip (lstrip s)"

text \<open>\<open>s.split(sep)\<close> for a separator of one character.\<close>

fun split_on :: "nat \<Rightarrow> str \<Rightarrow> str list" where
  "split_on sep [] = [[]]"
| "split_on sep (c # cs) =
     (if c = sep then [] # split_on sep cs
      else (case split_on sep cs of
              [] \<Rightarrow> [[c]]
            | w # ws \<Rightarrow> (c # w) # ws))"

text \<open>\<open>s.split()\<close>: the maximal runs of characters that are not whitespace.\<close>

function split_ws :: "str \<Rightarrow> str list" where
  "split_ws s =
     (let t = dropWhile isspace s
      in if t = [] then []
         else takeWhile (\<lambda>c. \<not> isspace c) t # split_ws (dropWhile (\<lambda>c. \<not> isspace c) t))"
  by pat_completeness auto
termination
proof (relation "measure length")
  show "wf (measure length)" by simp
next
  fix s t :: str
  assume t: "t = dropWhile isspace s" and ne: "t \<noteq> []"
  from ne obtain c cs where c: "t = c # cs" by (cases t) auto
  with t have "\<not> isspace c" by (metis hd_dropWhile list.sel(1) ne)
  with c have "length (dropWhile (\<lambda>c. \<not> isspace c) t) \<le> length cs"
    by (simp add: length_dropWhile_le)
  moreover have "length t \<le> length s" using t by (simp add: length_dropWhile_le)
  ultimately show "(dropWhile (\<lambda>c. \<not> isspace c) t, s) \<in> measure length"
    using c by simp
qed

text \<open>\<open>sep.join(ws)\<close>\<close>

fun join :: "str \<Rightarrow> str list \<Rightarrow> str" where
  "join sep [] = []"
| "join sep [w] = w"
| "join sep (w # v # ws) = w @ sep @ join sep (v # ws)"

text \<open>
  \<open>s.replace(old, new)\<close>: the occurrences of \<open>old\<close> are found from left to right and do
  not overlap; the search goes on after the end of each occurrence, never inside \<open>new\<close>.
  With an empty \<open>old\<close> Python puts \<open>new\<close> before every character and at the end.
\<close>

function replace :: "str \<Rightarrow> str \<Rightarrow> str \<Rightarrow> str" where
  "replace s old new =
     (if old = [] then new @ concat (map (\<lambda>c. c # new) s)
      else if s = [] then []
      else if startswith s old then new @ replace (drop (length old) s) old new
      else hd s # replace (tl s) old new)"
  by pat_completeness auto
termination
  by (relation "measure (\<lambda>(s, old, new). length s)") auto

datatype error = IndexError | ValueError | TypeError

text \<open>\<open>str(n)\<close> of an integer, as an f-string prints it.\<close>

function digits_of :: "nat \<Rightarrow> str" where
  "digits_of n = (if n < 10 then [48 + n] else digits_of (n div 10) @ [48 + n mod 10])"
  by pat_completeness auto
termination
  by (relation "measure id") auto

definition str_of_int :: "int \<Rightarrow> str" where
  "str_of_int n = (if n < 0 then 45 # digits_of (nat (- n)) else digits_of (nat n))"

text \<open>
  The running interpreter refuses to print an integer whose text is longer than 640
  characters and longer than its digit limit.
\<close>

definition format_int :: "py_runtime \<Rightarrow> int \<Rightarrow> error + str" where
  "format_int P n =
     (if length (str_of_int n) > 640 \<and> rt_int_max_str_digits P > 0
         \<and> length (str_of_int n) > rt_int_max_str_digits P then Inl ValueError
      else Inr (str_of_int n))"

text \<open>
  \<open>int(s)\<close> on a string of decimal digits (what a group \<open>(\d+)\<close> captures): the value in
  base 10, or \<open>ValueError\<close> when the string has more than 640 digits and more than the
  limit of the interpreter, if it has one.
\<close>

fun decimal_values :: "py_runtime \<Rightarrow> str \<Rightarrow> nat list option" where
  "decimal_values P [] = Some []"
| "decimal_values P (c # cs) =
     (case rt_decimal P c of
        None \<Rightarrow> None
      | Some d \<Rightarrow> (case decimal_values P cs of None \<Rightarrow> None | Some ds \<Rightarrow> Some (d # ds)))"

definition int_of_str :: "py_runtime \<Rightarrow> str \<Rightarrow> error + int" where
  "int_of_str P s =
     (if s = [] then Inl ValueError
      else if length s > 640 \<and> rt_int_max_str_digits P > 0
              \<and> length s > rt_int_max_str_digits P then Inl ValueError
      else (case decimal_values P s of
              None \<Rightarrow> Inl ValueError
            | Some ds \<Rightarrow> Inr (foldl (\<lambda>a d. 10 * a + int d) 0 ds)))"

text \<open>
  A runtime to evaluate examples with: the tables restricted to ASCII (the digits 0 to 9,
  the letters A to Z) and the default digit limit. On a string whose characters are
  ASCII or Chinese ideographs it gives what CPython gives.
\<close>

definition ascii_runtime :: py_runtime where
  "ascii_runtime =
     \<lparr>rt_decimal = (\<lambda>c. if 48 \<le> c \<and> c \<le> 57 then Some (c - 48) else None),
      rt_lower = map (\<lambda>c. if 65 \<le> c \<and> c \<le> 90 then c + 32 else c),
      rt_int_max_str_digits = 4300\<rparr>"

section \<open>Regular expressions\<close>

text \<open>
  The patterns of the source, as the backtracking matcher of \<open>re\<close> runs them. The
  constructors are the ones the source's patterns use: a literal, a character class, the
  greedy \<open>*\<close> and \<open>+\<close> and the lazy \<open>*?\<close> of a character class, the greedy \<open>?\<close>, a
  numbered group, concatenation, alternation, the lookahead \<open>(?=...)\<close> and \<open>$\<close>.
  \<open>AnyChar\<close> is \<open>.\<close> under \<open>re.DOTALL\<close> (every pattern of the source that has a dot is
  used with this flag).
\<close>

datatype cset = AnyChar | Digit | Space | OneOf "nat list"

datatype regex =
    Lit nat
  | In cset
  | Star cset
  | Plus cset
  | LazyStar cset
  | Opt regex
  | Group nat regex
  | Seq "regex list"
  | Alt regex regex
  | Ahead regex
  | Eos

fun in_cset :: "py_runtime \<Rightarrow> cset \<Rightarrow> nat \<Rightarrow> bool" where
  "in_cset P AnyChar c = True"
| "in_cset P Digit c = (rt_decimal P c \<noteq> None)"
| "in_cset P Space c = isspace c"
| "in_cset P (OneOf xs) c = (c \<in> set xs)"

text \<open>
  The characters that a literal of the pattern matches. Under \<open>re.IGNORECASE\<close> a cased
  literal matches every character with the same lower case, and \<open>s\<close> also U+017F. The
  one pattern of the source with this flag has the literals U+79D2 and \<open>s e c o n d\<close>.
\<close>

definition literal_chars :: "bool \<Rightarrow> nat \<Rightarrow> nat list" where
  "literal_chars ignorecase c =
     (if ignorecase \<and> c = 115 then [115, 83, 383]
      else if ignorecase \<and> c \<in> set (asc ''econd'') then [c, c - 32]
      else [c])"

type_synonym groups = "nat \<rightharpoonup> str"

text \<open>
  Greedy repetition takes a character of the class when it can and gives it back when
  the rest of the pattern (the continuation \<open>k\<close>) fails; lazy repetition tries the rest of
  the pattern first and takes a character only when that fails.
\<close>

fun rep_greedy :: "(nat \<Rightarrow> bool) \<Rightarrow> str \<Rightarrow> (str \<Rightarrow> 'a option) \<Rightarrow> 'a option" where
  "rep_greedy p [] k = k []"
| "rep_greedy p (c # cs) k =
     (if p c then (case rep_greedy p cs k of Some r \<Rightarrow> Some r | None \<Rightarrow> k (c # cs))
      else k (c # cs))"

fun rep_lazy :: "(nat \<Rightarrow> bool) \<Rightarrow> str \<Rightarrow> (str \<Rightarrow> 'a option) \<Rightarrow> 'a option" where
  "rep_lazy p [] k = k []"
| "rep_lazy p (c # cs) k =
     (case k (c # cs) of
        Some r \<Rightarrow> Some r
      | None \<Rightarrow> if p c then rep_lazy p cs k else None)"

text \<open>
  \<open>re_match ic P r s g k\<close> matches \<open>r\<close> at the start of \<open>s\<close> (the rest of the subject),
  with the groups \<open>g\<close> captured so far, and hands the rest of the subject and the groups
  to \<open>k\<close>; \<open>None\<close> is failure, after which the caller tries its next alternative. \<open>$\<close>
  (without \<open>re.MULTILINE\<close>) matches at the end and before a final line feed.
\<close>

fun re_match ::
  "bool \<Rightarrow> py_runtime \<Rightarrow> regex \<Rightarrow> str \<Rightarrow> groups \<Rightarrow>
   (str \<Rightarrow> groups \<Rightarrow> (str \<times> groups) option) \<Rightarrow> (str \<times> groups) option" where
  "re_match ic P (Lit c) s g k =
     (case s of [] \<Rightarrow> None
      | ch # rest \<Rightarrow> if ch \<in> set (literal_chars ic c) then k rest g else None)"
| "re_match ic P (In cs) s g k =
     (case s of [] \<Rightarrow> None
      | ch # rest \<Rightarrow> if in_cset P cs ch then k rest g else None)"
| "re_match ic P (Star cs) s g k = rep_greedy (in_cset P cs) s (\<lambda>rest. k rest g)"
| "re_match ic P (Plus cs) s g k =
     (case s of [] \<Rightarrow> None
      | ch # rest \<Rightarrow>
          if in_cset P cs ch then rep_greedy (in_cset P cs) rest (\<lambda>rest. k rest g)
          else None)"
| "re_match ic P (LazyStar cs) s g k = rep_lazy (in_cset P cs) s (\<lambda>rest. k rest g)"
| "re_match ic P (Opt r) s g k =
     (case re_match ic P r s g k of Some x \<Rightarrow> Some x | None \<Rightarrow> k s g)"
| "re_match ic P (Group n r) s g k =
     re_match ic P r s g (\<lambda>rest g'. k rest (g'(n \<mapsto> take (length s - length rest) s)))"
| "re_match ic P (Seq []) s g k = k s g"
| "re_match ic P (Seq (r # rs)) s g k =
     re_match ic P r s g (\<lambda>rest g'. re_match ic P (Seq rs) rest g' k)"
| "re_match ic P (Alt a b) s g k =
     (case re_match ic P a s g k of Some x \<Rightarrow> Some x | None \<Rightarrow> re_match ic P b s g k)"
| "re_match ic P (Ahead r) s g k =
     (case re_match ic P r s g (\<lambda>rest g'. Some (rest, g')) of
        None \<Rightarrow> None
      | Some (rest, g') \<Rightarrow> k s g')"
| "re_match ic P Eos s g k = (if s = [] \<or> s = [10] then k s g else None)"

text \<open>A match that starts at the start of \<open>s\<close>: what is left of \<open>s\<close> and the groups.\<close>

definition match_here :: "bool \<Rightarrow> py_runtime \<Rightarrow> regex \<Rightarrow> str \<Rightarrow> (str \<times> groups) option" where
  "match_here ic P r s = re_match ic P r s Map.empty (\<lambda>rest g. Some (rest, g))"

text \<open>
  \<open>re.search\<close>: the match at the leftmost position that has one. The patterns of the
  source look at nothing before the position they start at, so the part of the subject
  left of it is dropped.
\<close>

fun re_search :: "bool \<Rightarrow> py_runtime \<Rightarrow> regex \<Rightarrow> str \<Rightarrow> groups option" where
  "re_search ic P r [] = map_option snd (match_here ic P r [])"
| "re_search ic P r (c # cs) =
     (case match_here ic P r (c # cs) of
        Some (rest, g) \<Rightarrow> Some g
      | None \<Rightarrow> re_search ic P r cs)"

text \<open>
  \<open>re.findall\<close>: the matches from left to right, each search starting where the previous
  match ended. (After an empty match the model moves on by one character; the patterns
  of the source start with literal characters and never match the empty string.) For
  each match, the matched text and the groups.
\<close>

function findall_matches :: "bool \<Rightarrow> py_runtime \<Rightarrow> regex \<Rightarrow> str \<Rightarrow> (str \<times> groups) list" where
  "findall_matches ic P r s =
     (case match_here ic P r s of
        None \<Rightarrow> (case s of [] \<Rightarrow> [] | c # cs \<Rightarrow> findall_matches ic P r cs)
      | Some (rest, g) \<Rightarrow>
          (take (length s - length rest) s, g) #
          (if length rest < length s then findall_matches ic P r rest
           else (case s of [] \<Rightarrow> [] | c # cs \<Rightarrow> findall_matches ic P r cs)))"
  by pat_completeness auto
termination
  by (relation "measure (\<lambda>(ic, P, r, s). length s)") auto

text \<open>
  What \<open>findall\<close> returns for a match: the matched text when the pattern has no group,
  the text of the group when it has one, a tuple of the texts of the groups when it has
  several (the empty string for a group that took no part in the match).
\<close>

datatype findall_item = ItemStr str | ItemTuple "str list"

fun ngroups :: "regex \<Rightarrow> nat" where
  "ngroups (Opt r) = ngroups r"
| "ngroups (Group n r) = Suc (ngroups r)"
| "ngroups (Seq rs) = sum_list (map ngroups rs)"
| "ngroups (Alt a b) = ngroups a + ngroups b"
| "ngroups (Ahead r) = ngroups r"
| "ngroups r = 0"

definition group_text :: "groups \<Rightarrow> nat \<Rightarrow> str" where
  "group_text g n = (case g n of None \<Rightarrow> [] | Some t \<Rightarrow> t)"

definition findall_item_of :: "nat \<Rightarrow> str \<times> groups \<Rightarrow> findall_item" where
  "findall_item_of n mg =
     (if n = 0 then ItemStr (fst mg)
      else if n = 1 then ItemStr (group_text (snd mg) 1)
      else ItemTuple (map (group_text (snd mg)) [1..<Suc n]))"

definition re_findall :: "bool \<Rightarrow> py_runtime \<Rightarrow> regex \<Rightarrow> str \<Rightarrow> findall_item list" where
  "re_findall ic P r s = map (findall_item_of (ngroups r)) (findall_matches ic P r s)"

text \<open>\<open>len(x)\<close> and \<open>x[i]\<close> on what \<open>findall\<close> returns; a character of a string is a string.\<close>

fun item_len :: "findall_item \<Rightarrow> nat" where
  "item_len (ItemStr s) = length s"
| "item_len (ItemTuple t) = length t"

fun item_get :: "findall_item \<Rightarrow> nat \<Rightarrow> error + str" where
  "item_get (ItemStr s) i = (if i < length s then Inr [s ! i] else Inl IndexError)"
| "item_get (ItemTuple t) i = (if i < length t then Inr (t ! i) else Inl IndexError)"

section \<open>The decision agent\<close>

datatype TaskType =
    TEXT_TO_IMAGE
  | IMAGE_TO_IMAGE
  | IMAGE_TO_VIDEO
  | TEXT_TO_VIDEO
  | FIRST_TO_LAST_FRAME
  | MULTIMODAL
  | BATCH_IMAGE_GENERATION

text \<open>\<open>TaskType.value\<close>\<close>

fun task_value :: "TaskType \<Rightarrow> str" where
  "task_value TEXT_TO_IMAGE = asc ''text_to_image''"
| "task_value IMAGE_TO_IMAGE = asc ''image_to_image''"
| "task_value IMAGE_TO_VIDEO = asc ''image_to_video''"
| "task_value TEXT_TO_VIDEO = asc ''text_to_video''"
| "task_value FIRST_TO_LAST_FRAME = asc ''first_to_last_frame''"
| "task_value MULTIMODAL = asc ''multimodal''"
| "task_value BATCH_IMAGE_GENERATION = asc ''batch_image_generation''"

subsection \<open>Keyword tables\<close>

text \<open>The four lists of \<open>self.keywords\<close>, set in \<open>__init__\<close> and never changed.\<close>

definition image_gen :: "str list" where
  "image_gen =
    [[29983, 25104, 22294, 29255],
     [30059],
     [32362, 35069],
     [21109, 24314, 22294, 20687],
     [22294, 29255],
     [25554, 30059],
     asc ''image'',
     asc ''picture'',
     asc ''photo'']"

definition image_transform :: "str list" where
  "image_transform =
    [[20462, 25913],
     [36681, 25563],
     [25913, 35722],
     [35519, 25972],
     [32232, 36655],
     asc ''transform'',
     asc ''modify'',
     asc ''edit'',
     asc ''change'']"

definition video_gen :: "str list" where
  "video_gen =
    [[35222, 38971],
     [24433, 29255],
     [21205, 30059],
     [21205, 24907],
     asc ''video'',
     asc ''animation'',
     asc ''motion'']"

definition interpolation :: "str list" where
  "interpolation =
    [[39318, 23614],
     [25554, 20540],
     [36942, 28193],
     [20013, 38291, 24128],
     asc ''interpolate'',
     asc ''transition'',
     asc ''morph'']"

text \<open>
  \<open>scene_keywords\<close> (scene one .. scene four, first .. fourth picture) is the same
  list in \<open>_determine_task_type\<close>, \<open>_calculate_confidence\<close> and \<open>validate_input\<close>:
  U+5834 U+666F followed by one of U+4E00, U+4E8C, U+4E09, U+56DB, and U+7B2C, the same
  numeral, U+5F35.
\<close>

definition scene_keywords :: "str list" where
  "scene_keywords =
    [[22580, 26223, 19968],
     [22580, 26223, 20108],
     [22580, 26223, 19977],
     [22580, 26223, 22235],
     [31532, 19968, 24373],
     [31532, 20108, 24373],
     [31532, 19977, 24373],
     [31532, 22235, 24373]]"

subsection \<open>\<open>_determine_task_type\<close>\<close>

text \<open>The local list \<open>batch_keywords\<close> of \<open>_determine_task_type\<close>.\<close>

definition determine_batch_keywords :: "str list" where
  "determine_batch_keywords =
    [[22235, 24373],
     [22235, 20491],
     [52, 24373],
     [52, 20491],
     asc ''four'',
     asc ''4'',
     [22810, 24373],
     [22810, 20491],
     asc ''batch'',
     [29983, 25104, 22235],
     asc ''create four'']"

definition determine_task_type :: "py_runtime \<Rightarrow> str \<Rightarrow> int \<Rightarrow> TaskType" where
  "determine_task_type P message file_count =
    (let has_batch_keyword = any_in (rt_lower P message) determine_batch_keywords;
         has_scene_keywords = any_in message scene_keywords;
         has_video_keyword = any_in message video_gen;
         has_interpolation_keyword = any_in message interpolation;
         has_image_gen_keyword = any_in message image_gen;
         has_transform_keyword = any_in message image_transform
     in
       if file_count = 1 \<and> (has_batch_keyword \<or> has_scene_keywords) then
         BATCH_IMAGE_GENERATION
       else if file_count = 0 then
         (if has_video_keyword then TEXT_TO_VIDEO else TEXT_TO_IMAGE)
       else if file_count = 1 then
         (if has_video_keyword then IMAGE_TO_VIDEO
          else if has_transform_keyword \<or> has_image_gen_keyword then IMAGE_TO_IMAGE
          else (if has_video_keyword then IMAGE_TO_VIDEO else IMAGE_TO_IMAGE))
       else if file_count = 2 then
         (if has_interpolation_keyword \<or> contains message [39318] \<or> contains message [23614]
          then FIRST_TO_LAST_FRAME
          else IMAGE_TO_IMAGE)
       else IMAGE_TO_IMAGE)"

subsection \<open>\<open>_calculate_confidence\<close>\<close>

text \<open>
  A Python \<open>float\<close> is a real number that the format can represent; \<open>fl\<close> is the
  rounding of the format (to nearest), so that the literal \<open>0.4\<close> is \<open>fl (4/10)\<close> and
  \<open>x += y\<close> is \<open>fl (x + y)\<close>.
\<close>

text \<open>The local list \<open>batch_keywords\<close> of \<open>_calculate_confidence\<close>, two entries shorter.\<close>

definition confidence_batch_keywords :: "str list" where
  "confidence_batch_keywords =
    [[22235, 24373],
     [22235, 20491],
     [52, 24373],
     [52, 20491],
     asc ''four'',
     asc ''4'',
     [22810, 24373],
     [22810, 20491],
     asc ''batch'']"

definition calculate_confidence ::
  "(real \<Rightarrow> real) \<Rightarrow> py_runtime \<Rightarrow> str \<Rightarrow> int \<Rightarrow> TaskType \<Rightarrow> real" where
  "calculate_confidence fl P message file_count task_type =
    (let confidence = fl (5/10);
         confidence =
           (if task_type = BATCH_IMAGE_GENERATION then
              (let confidence =
                     (if any_in (rt_lower P message) confidence_batch_keywords
                      then fl (confidence + fl (4/10)) else confidence);
                   confidence =
                     (if any_in message scene_keywords
                      then fl (confidence + fl (3/10)) else confidence);
                   confidence =
                     (if file_count = 1 then fl (confidence + fl (2/10)) else confidence)
               in confidence)
            else if task_type = TEXT_TO_IMAGE then
              (if any_in message image_gen then fl (confidence + fl (3/10)) else confidence)
            else if task_type = IMAGE_TO_VIDEO then
              (if any_in message video_gen then fl (confidence + fl (3/10)) else confidence)
            else if task_type = FIRST_TO_LAST_FRAME then
              (if any_in message interpolation then fl (confidence + fl (4/10)) else confidence)
            else confidence);
         confidence =
           (if task_type = FIRST_TO_LAST_FRAME \<and> file_count = 2
            then fl (confidence + fl (2/10)) else confidence)
     in min confidence (fl 1))"

text \<open>
  What the theorems need of the rounding: it is monotone and represents 0 and 1 exactly,
  as rounding to the nearest binary floating-point number does.
\<close>

definition rounding :: "(real \<Rightarrow> real) \<Rightarrow> bool" where
  "rounding fl \<longleftrightarrow> (\<forall>x y. x \<le> y \<longrightarrow> fl x \<le> fl y) \<and> fl 0 = 0 \<and> fl 1 = 1"

subsection \<open>\<open>validate_input\<close>\<close>

record ValidationResult =
  valid :: bool
  errors :: "str list"

text \<open>The nine error messages, in the order of the source.\<close>

definition err_batch_files :: str where
  "err_batch_files = [25209, 37327, 22294, 29983, 22294, 38656, 35201, 19978, 20659, 49,
     24373, 21443, 32771, 22294, 29255]"

definition err_batch_message :: str where
  "err_batch_message = [35531, 25552, 20379, 35443, 32048, 30340, 22580, 26223, 25551, 36848,
     65288, 33267, 23569, 49, 48, 20491, 23383, 31526, 65289]"

definition err_batch_scenes :: str where
  "err_batch_scenes = [35531, 29992, 34, 22580, 26223, 19968, 34, 12289, 34, 22580, 26223,
     20108, 34, 31561, 26684, 24335, 25551, 36848, 21508, 20491, 22580, 26223]"

definition err_t2i_message :: str where
  "err_t2i_message = [35531, 25552, 20379, 26377, 25928, 30340, 22294, 29255, 25551, 36848,
     65288, 33267, 23569, 51, 20491, 23383, 31526, 65289]"

definition err_i2i_files :: str where
  "err_i2i_files = [22294, 29983, 22294, 38656, 35201, 19978, 20659, 33267, 23569, 49, 24373,
     22294, 29255]"

definition err_i2i_message :: str where
  "err_i2i_message = [35531, 35498, 26126, 35201, 22914, 20309, 34389, 29702, 22294, 29255]"

definition err_i2v_files :: str where
  "err_i2v_files = [22294, 29983, 35222, 38971, 38656, 35201, 19978, 20659, 49, 24373, 22294,
     29255]"

definition err_f2l_files :: str where
  "err_f2l_files = [39318, 23614, 24128, 25554, 20540, 38656, 35201, 19978, 20659, 50, 24373,
     22294, 29255]"

definition err_t2v_message :: str where
  "err_t2v_message = [35531, 25552, 20379, 26377, 25928, 30340, 35222, 38971, 25551, 36848,
     65288, 33267, 23569, 53, 20491, 23383, 31526, 65289]"

text \<open>\<open>if cond: errors.append(msg)\<close>, on the list built so far.\<close>

definition append_if :: "bool \<Rightarrow> str \<Rightarrow> str list \<Rightarrow> str list" where
  "append_if cond msg errs = (if cond then errs @ [msg] else errs)"

definition validate_input :: "str \<Rightarrow> str \<Rightarrow> int \<Rightarrow> ValidationResult" where
  "validate_input task_type message file_count =
    (let errors = [];
         errors =
           (if task_type = asc ''batch_image_generation'' then
              (let errors = append_if (file_count = 0) err_batch_files errors;
                   errors = append_if (message = [] \<or> length (strip message) < 10)
                              err_batch_message errors;
                   errors = append_if (\<not> any_in message scene_keywords)
                              err_batch_scenes errors
               in errors)
            else if task_type = asc ''text_to_image'' then
              append_if (message = [] \<or> length (strip message) < 3) err_t2i_message errors
            else if task_type = asc ''image_to_image'' then
              (let errors = append_if (file_count = 0) err_i2i_files errors;
                   errors = append_if (message = []) err_i2i_message errors
               in errors)
            else if task_type = asc ''image_to_video'' then
              append_if (file_count = 0) err_i2v_files errors
            else if task_type = asc ''first_to_last_frame'' then
              append_if (file_count < 2) err_f2l_files errors
            else if task_type = asc ''text_to_video'' then
              append_if (message = [] \<or> length (strip message) < 5) err_t2v_message errors
            else errors)
     in \<lparr>valid = (length errors = 0), errors = errors\<rparr>)"

text \<open>
  The rule table of the specification (section 4.6), to compare \<open>validate_input\<close> with:
  for a task type, the required conditions in order, each with the message of its
  failure. A task type that the table does not list has no rule.
\<close>

definition spec_rules :: "str \<Rightarrow> str \<Rightarrow> int \<Rightarrow> (bool \<times> str) list" where
  "spec_rules task_type message attachment_count =
    (if task_type = task_value BATCH_IMAGE_GENERATION then
       [(attachment_count \<ge> 1, err_batch_files),
        (length (strip message) \<ge> 10, err_batch_message),
        (any_in message scene_keywords, err_batch_scenes)]
     else if task_type = task_value TEXT_TO_IMAGE then
       [(length (strip message) \<ge> 3, err_t2i_message)]
     else if task_type = task_value IMAGE_TO_IMAGE then
       [(attachment_count \<ge> 1, err_i2i_files),
        (message \<noteq> [], err_i2i_message)]
     else if task_type = task_value IMAGE_TO_VIDEO then
       [(attachment_count \<ge> 1, err_i2v_files)]
     else if task_type = task_value FIRST_TO_LAST_FRAME then
       [(attachment_count \<ge> 2, err_f2l_files)]
     else if task_type = task_value TEXT_TO_VIDEO then
       [(length (strip message) \<ge> 5, err_t2v_message)]
     else [])"

text \<open>Every failing rule contributes its message, in the order of the table.\<close>

definition failing_messages :: "(bool \<times> str) list \<Rightarrow> str list" where
  "failing_messages rules = map snd (filter (\<lambda>r. \<not> fst r) rules)"

subsection \<open>\<open>_extract_prompt\<close>\<close>

definition instruction_words :: "str list" where
  "instruction_words =
    [[24171, 25105],
     [35531],
     [29983, 25104],
     [21109, 24314],
     [35069, 20316],
     [30059],
     [32362, 35069],
     asc ''help'',
     asc ''create'',
     asc ''generate'',
     asc ''make'',
     asc ''draw'']"

text \<open>The loop \<open>for word in instruction_words: prompt = prompt.replace(word, '')\<close>.\<close>

definition remove_words :: "str list \<Rightarrow> str \<Rightarrow> str" where
  "remove_words ws message = foldl (\<lambda>prompt word. replace prompt word []) message ws"

definition extract_prompt :: "str \<Rightarrow> str" where
  "extract_prompt message =
    (let prompt = remove_words instruction_words message;
         prompt = join (asc '' '') (split_ws prompt)
     in strip prompt)"

subsection \<open>\<open>_extract_parameters\<close>\<close>

text \<open>A value of a dictionary of the source.\<close>

datatype pyval = PNone | PBool bool | PInt int | PStr str | PList "str list"

type_synonym dict = "str \<rightharpoonup> pyval"

text \<open>\<open>(\d+)\s*\<close>U+79D2\<open>|(\d+)\s*seconds?\<close>, searched with \<open>re.IGNORECASE\<close>.\<close>

definition duration_pattern :: regex where
  "duration_pattern =
     Alt (Seq [Group 1 (Plus Digit), Star Space, Lit 31186])
         (Seq ([Group 2 (Plus Digit), Star Space] @ map Lit (asc ''second'') @ [Opt (Lit 115)]))"

text \<open>\<open>(\d+)\s*[x\<close>U+00D7\<open>]\s*(\d+)\<close>, \<open>(\d+)\s*:\s*(\d+)\<close> and \<open>(\d+)\s*by\s*(\d+)\<close>.\<close>

definition size_patterns :: "regex list" where
  "size_patterns =
    [Seq [Group 1 (Plus Digit), Star Space, In (OneOf [120, 215]), Star Space,
          Group 2 (Plus Digit)],
     Seq [Group 1 (Plus Digit), Star Space, Lit 58, Star Space, Group 2 (Plus Digit)],
     Seq [Group 1 (Plus Digit), Star Space, Lit 98, Lit 121, Star Space,
          Group 2 (Plus Digit)]]"

definition style_keywords :: "(str \<times> str list) list" where
  "style_keywords =
    [(asc ''realistic'',
        [[30495, 23526], [23531, 23526], asc ''realistic'', asc ''photorealistic'']),
     (asc ''anime'',
        [[21205, 28459], [21345, 36890], asc ''anime'', asc ''cartoon'']),
     (asc ''artistic'',
        [[34269, 34899], [32362, 30059], asc ''artistic'', asc ''painting'']),
     (asc ''cinematic'',
        [[38651, 24433], [24433, 35222], asc ''cinematic'', asc ''film''])]"

text \<open>
  \<open>int(x)\<close> where \<open>x\<close> is \<open>match.group(n)\<close>, or \<open>a or b\<close> of two of them: \<open>None\<close> is a
  \<open>TypeError\<close>.
\<close>

definition int_of_group :: "py_runtime \<Rightarrow> str option \<Rightarrow> error + int" where
  "int_of_group P x = (case x of None \<Rightarrow> Inl TypeError | Some t \<Rightarrow> int_of_str P t)"

text \<open>\<open>a or b\<close> on \<open>match.group\<close> values: \<open>a\<close> unless it is \<open>None\<close> or empty.\<close>

definition group_or :: "str option \<Rightarrow> str option \<Rightarrow> str option" where
  "group_or a b = (case a of None \<Rightarrow> b | Some t \<Rightarrow> if t = [] then b else a)"

definition extract_duration :: "py_runtime \<Rightarrow> str \<Rightarrow> dict \<Rightarrow> error + dict" where
  "extract_duration P message params =
    (case re_search True P duration_pattern message of
       Some duration_match \<Rightarrow>
         (case int_of_group P (group_or (duration_match 1) (duration_match 2)) of
            Inl e \<Rightarrow> Inl e
          | Inr duration \<Rightarrow>
              Inr (params(asc ''duration'' \<mapsto> PInt (min (max duration 1) 10))))
     | None \<Rightarrow> Inr (params(asc ''duration'' \<mapsto> PInt 5)))"

text \<open>
  The loop over \<open>size_patterns\<close>, which stops at the first pattern that matches. The
  f-string prints two numbers that \<open>int\<close> has just read from at least as many digits,
  so it stays within the digit limit.
\<close>

fun extract_size :: "py_runtime \<Rightarrow> regex list \<Rightarrow> str \<Rightarrow> dict \<Rightarrow> error + dict" where
  "extract_size P [] message params = Inr params"
| "extract_size P (pattern # rest) message params =
    (case re_search False P pattern message of
       Some size_match \<Rightarrow>
         (case int_of_group P (size_match 1) of
            Inl e \<Rightarrow> Inl e
          | Inr width \<Rightarrow>
              (case int_of_group P (size_match 2) of
                 Inl e \<Rightarrow> Inl e
               | Inr height \<Rightarrow>
                   Inr (params(asc ''size'' \<mapsto>
                          PStr (str_of_int width @ asc ''x'' @ str_of_int height)))))
     | None \<Rightarrow> extract_size P rest message params)"

text \<open>The loop over \<open>style_keywords.items()\<close>, which stops at the first style found.\<close>

fun extract_style :: "py_runtime \<Rightarrow> (str \<times> str list) list \<Rightarrow> str \<Rightarrow> dict \<Rightarrow> dict" where
  "extract_style P [] message params = params"
| "extract_style P ((style, keywords) # rest) message params =
    (if any_in (rt_lower P message) keywords then params(asc ''style'' \<mapsto> PStr style)
     else extract_style P rest message params)"

definition extract_parameters :: "py_runtime \<Rightarrow> str \<Rightarrow> error + dict" where
  "extract_parameters P message =
    (let params = Map.empty
     in case extract_duration P message params of
          Inl e \<Rightarrow> Inl e
        | Inr params \<Rightarrow>
            (case extract_size P size_patterns message params of
               Inl e \<Rightarrow> Inl e
             | Inr params \<Rightarrow> Inr (extract_style P style_keywords message params)))"

subsection \<open>\<open>_generate_reasoning\<close> and \<open>analyze_intent\<close>\<close>

text \<open>
  The dictionary \<open>intent_data\<close> that \<open>analyze_intent\<close> returns and \<open>plan_execution\<close>
  reads (the caller adds \<open>filePaths\<close>), by its keys; \<open>None\<close> is a missing key.
\<close>

record intent_data =
  get_taskType :: "str option"
  get_prompt :: "str option"
  get_fileCount :: "int option"
  get_reasoning :: "str option"
  get_parameters :: "dict option"
  get_confidence :: "real option"
  get_filePaths :: "str list option"

definition generate_reasoning :: "py_runtime \<Rightarrow> TaskType \<Rightarrow> str \<Rightarrow> int \<Rightarrow> error + str" where
  "generate_reasoning P task_type message file_count =
    (case (if file_count = 0 then Inr [[26410, 19978, 20659, 25991, 20214]]
           else (case format_int P file_count of
                   Inl e \<Rightarrow> Inl e
                 | Inr n \<Rightarrow> Inr [[19978, 20659, 20102, 32] @ n @ [32, 20491, 25991, 20214]])) of
       Inl e \<Rightarrow> Inl e
     | Inr reasons \<Rightarrow>
         (let reasons =
                (if task_type = BATCH_IMAGE_GENERATION then
                   reasons @
                   [[21253, 21547, 25209, 37327, 29983, 25104, 38364, 37749, 35422, 65288,
                     22235, 24373, 47, 22235, 20491, 47, 22580, 26223, 31561, 65289]] @
                   [[38656, 35201, 21443, 32771, 22294, 29255, 29983, 25104, 22810, 20491,
                     19981, 21516, 22580, 26223]]
                 else reasons);
              reasons =
                append_if (contains message [35222, 38971]
                           \<or> contains (rt_lower P message) (asc ''video''))
                  [28040, 24687, 20013, 21253, 21547, 35222, 38971, 30456, 38364, 35422, 24409]
                  reasons;
              reasons =
                append_if (contains message [22294, 29255]
                           \<or> contains (rt_lower P message) (asc ''image''))
                  [28040, 24687, 20013, 21253, 21547, 22294, 29255, 30456, 38364, 35422, 24409]
                  reasons;
              reasons =
                append_if (contains message [39318, 23614] \<or> contains message [25554, 20540])
                  [28040, 24687, 20013, 21253, 21547, 25554, 20540, 30456, 38364, 35422, 24409]
                  reasons
          in Inr ([21028, 26039, 28858, 32] @ task_value task_type
                  @ [65292, 22240, 28858, 58, 32] @ join [12289] reasons)))"

text \<open>
  \<open>analyze_intent\<close> (its logging left out): the task type comes from the lower-cased
  message, everything else from the message as it is.
\<close>

definition analyze_intent ::
  "(real \<Rightarrow> real) \<Rightarrow> py_runtime \<Rightarrow> str \<Rightarrow> int \<Rightarrow> error + intent_data" where
  "analyze_intent fl P message file_count =
    (let message_lower = rt_lower P message;
         task_type = determine_task_type P message_lower file_count;
         prompt = extract_prompt message
     in case generate_reasoning P task_type message file_count of
          Inl e \<Rightarrow> Inl e
        | Inr reasoning \<Rightarrow>
            (case extract_parameters P message of
               Inl e \<Rightarrow> Inl e
             | Inr params \<Rightarrow>
                 Inr \<lparr>get_taskType = Some (task_value task_type),
                      get_prompt = Some prompt,
                      get_fileCount = Some file_count,
                      get_reasoning = Some reasoning,
                      get_parameters = Some params,
                      get_confidence =
                        Some (calculate_confidence fl P message file_count task_type),
                      get_filePaths = None\<rparr>))"

text \<open>
  The size rule of the specification (section 4.3), to compare \<open>extract_size\<close> with:
  the patterns are tried in order, the first that matches wins, and its two numbers are
  written out as width, \<open>x\<close>, height. \<open>None\<close> is no size.
\<close>

definition spec_size_text :: "py_runtime \<Rightarrow> groups \<Rightarrow> error + str" where
  "spec_size_text P size_match =
    (case int_of_group P (size_match 1) of
       Inl e \<Rightarrow> Inl e
     | Inr width \<Rightarrow>
         (case int_of_group P (size_match 2) of
            Inl e \<Rightarrow> Inl e
          | Inr height \<Rightarrow> Inr (str_of_int width @ asc ''x'' @ str_of_int height)))"

definition spec_size :: "py_runtime \<Rightarrow> regex list \<Rightarrow> str \<Rightarrow> (error + str) option" where
  "spec_size P patterns message =
    (case filter (\<lambda>pattern. re_search False P pattern message \<noteq> None) patterns of
       [] \<Rightarrow> None
     | pattern # others \<Rightarrow> map_option (spec_size_text P) (re_search False P pattern message))"

text \<open>
  A runtime whose decimal digits among the ASCII characters are \<open>0\<close> to \<open>9\<close> with their
  values, as in every Python.
\<close>

definition ascii_digits :: "py_runtime \<Rightarrow> bool" where
  "ascii_digits P \<longleftrightarrow>
     (\<forall>c<128. rt_decimal P c = (if 48 \<le> c \<and> c \<le> 57 then Some (c - 48) else None))"

subsection \<open>\<open>_parse_scenes\<close>\<close>

text \<open>
  The four patterns, used with \<open>re.DOTALL\<close>. U+5834 U+666F is the word for scene,
  U+7B2C .. U+5F35 the ordinal of a picture, U+4E00 U+4E8C U+4E09 U+56DB the numerals
  one to four, U+FF1A the full-width colon:
  \<^item> scene, one of the four numerals, colon, \<open>(.*?)\<close>, then the lookahead for the same
    marker or \<open>$\<close>;
  \<^item> scene, \<open>(\d+)\<close>, colon, \<open>(.*?)\<close>, lookahead;
  \<^item> and the same two for the ordinal.
\<close>

definition scene_patterns :: "regex list" where
  "scene_patterns =
    [Seq [Lit 22580, Lit 26223, In (OneOf [19968, 20108, 19977, 22235]), Lit 65306,
          Group 1 (LazyStar AnyChar),
          Ahead (Alt (Seq [Lit 22580, Lit 26223, In (OneOf [19968, 20108, 19977, 22235]),
                           Lit 65306])
                     Eos)],
     Seq [Lit 22580, Lit 26223, Group 1 (Plus Digit), Lit 65306,
          Group 2 (LazyStar AnyChar),
          Ahead (Alt (Seq [Lit 22580, Lit 26223, Plus Digit, Lit 65306]) Eos)],
     Seq [Lit 31532, In (OneOf [19968, 20108, 19977, 22235]), Lit 24373, Lit 65306,
          Group 1 (LazyStar AnyChar),
          Ahead (Alt (Seq [Lit 31532, In (OneOf [19968, 20108, 19977, 22235]), Lit 24373,
                           Lit 65306])
                     Eos)],
     Seq [Lit 31532, Group 1 (Plus Digit), Lit 24373, Lit 65306,
          Group 2 (LazyStar AnyChar),
          Ahead (Alt (Seq [Lit 31532, Plus Digit, Lit 24373, Lit 65306]) Eos)]]"

text \<open>
  The inner loop \<open>for match in matches\<close>:
  \<open>scene_text = match[1] if len(match) > 1 else match[0]\<close>, stripped, appended when it is
  not empty.
\<close>

fun scene_texts :: "findall_item list \<Rightarrow> str list \<Rightarrow> error + str list" where
  "scene_texts [] scenes = Inr scenes"
| "scene_texts (match # rest) scenes =
    (case (if item_len match > 1 then item_get match 1 else item_get match 0) of
       Inl e \<Rightarrow> Inl e
     | Inr scene_text \<Rightarrow>
         (let scene_text = strip scene_text
          in scene_texts rest (if scene_text \<noteq> [] then scenes @ [scene_text] else scenes)))"

text \<open>The outer loop \<open>for pattern in scene_patterns\<close>, left at the first pattern with matches.\<close>

fun scenes_by_pattern ::
  "py_runtime \<Rightarrow> regex list \<Rightarrow> str \<Rightarrow> str list \<Rightarrow> error + str list" where
  "scenes_by_pattern P [] prompt scenes = Inr scenes"
| "scenes_by_pattern P (pattern # rest) prompt scenes =
    (let matches = re_findall False P pattern prompt
     in if matches \<noteq> [] then scene_texts matches scenes
        else scenes_by_pattern P rest prompt scenes)"

definition parse_scenes :: "py_runtime \<Rightarrow> str \<Rightarrow> error + str list" where
  "parse_scenes P prompt =
    (case scenes_by_pattern P scene_patterns prompt [] of
       Inl e \<Rightarrow> Inl e
     | Inr scenes \<Rightarrow>
         (let scenes =
                (if scenes = [] then
                   (let paragraphs =
                          map strip (filter (\<lambda>p. strip p \<noteq> []) (split_on 10 prompt))
                    in if length paragraphs \<ge> 2 then tl paragraphs else scenes)
                 else scenes)
          in Inr (take 4 scenes)))"

subsection \<open>\<open>plan_execution\<close>\<close>

record ExecutionStep =
  step :: int
  action :: "str option"
  parameters :: dict
  description :: str

text \<open>\<open>enumerate(xs, i)\<close>\<close>

fun enumerate_from :: "int \<Rightarrow> 'a list \<Rightarrow> (int \<times> 'a) list" where
  "enumerate_from i [] = []"
| "enumerate_from i (x # xs) = (i, x) # enumerate_from (i + 1) xs"

definition batch_step :: "str list \<Rightarrow> str list \<Rightarrow> int \<Rightarrow> str \<Rightarrow> ExecutionStep" where
  "batch_step file_paths scenes i scene_desc =
     \<lparr>step = i,
      action = Some (asc ''image_to_image''),
      parameters =
        [asc ''prompt'' \<mapsto> PStr scene_desc,
         asc ''filePaths'' \<mapsto> PList file_paths,
         asc ''is_batch'' \<mapsto> PBool True,
         asc ''batch_index'' \<mapsto> PInt i,
         asc ''total_batches'' \<mapsto> PInt (int (length scenes))],
      description =
        [29983, 25104, 31532] @ str_of_int i @ [24373, 22580, 26223, 22294, 65306]
        @ take 50 scene_desc @ asc ''...''\<rparr>"

definition plan_batch_generation ::
  "py_runtime \<Rightarrow> intent_data \<Rightarrow> error + ExecutionStep list" where
  "plan_batch_generation P intent =
    (let original_prompt = (case get_prompt intent of None \<Rightarrow> [] | Some p \<Rightarrow> p);
         file_paths = (case get_filePaths intent of None \<Rightarrow> [] | Some fs \<Rightarrow> fs)
     in case parse_scenes P original_prompt of
          Inl e \<Rightarrow> Inl e
        | Inr scenes \<Rightarrow>
            Inr (foldl (\<lambda>execution_plan (i, scene_desc).
                          execution_plan @ [batch_step file_paths scenes i scene_desc])
                   [] (enumerate_from 1 scenes)))"

definition get_action_description :: "str option \<Rightarrow> str" where
  "get_action_description task_type =
    (if task_type = Some (asc ''text_to_image'') then
       [26681, 25818, 25991, 23383, 25551, 36848, 29983, 25104, 22294, 29255]
     else if task_type = Some (asc ''image_to_image'') then
       [36681, 25563, 47, 32232, 36655, 19978, 20659, 30340, 22294, 29255]
     else if task_type = Some (asc ''image_to_video'') then
       [23559, 22294, 29255, 36681, 25563, 28858, 21205, 24907, 35222, 38971]
     else if task_type = Some (asc ''text_to_video'') then
       [26681, 25818, 25991, 23383, 25551, 36848, 29983, 25104, 35222, 38971]
     else if task_type = Some (asc ''first_to_last_frame'') then
       [20351, 29992, 39318, 23614, 20841, 24128, 29983, 25104, 23436, 25972, 35222, 38971,
        65288, 25554, 20540, 65289]
     else if task_type = Some (asc ''batch_image_generation'') then
       [21443, 32771, 22294, 29255, 25209, 37327, 29983, 25104, 22810, 24373, 22580, 26223,
        22294, 29255]
     else [22519, 34892, 26410, 30693, 20219, 21209])"

definition plan_execution :: "py_runtime \<Rightarrow> intent_data \<Rightarrow> error + ExecutionStep list" where
  "plan_execution P intent =
    (let task_type = get_taskType intent
     in if task_type = Some (asc ''batch_image_generation'') then
          plan_batch_generation P intent
        else
          Inr [\<lparr>step = 1,
                action = task_type,
                parameters =
                  [asc ''prompt'' \<mapsto> (case get_prompt intent of None \<Rightarrow> PNone | Some p \<Rightarrow> PStr p),
                   asc ''filePaths'' \<mapsto>
                     PList (case get_filePaths intent of None \<Rightarrow> [] | Some fs \<Rightarrow> fs)]
                  ++ (case get_parameters intent of None \<Rightarrow> Map.empty | Some ps \<Rightarrow> ps),
                description = get_action_description task_type\<rparr>])"

subsection \<open>What a match captures\<close>

text \<open>
  Two facts about the groups of a successful match, for the patterns whose groups are all
  \<open>(\d+)\<close>: the text of every group is a string of decimal digits that is not empty
  and not longer than the subject, and the groups of \<open>must_set\<close> are set.
\<close>

fun digit_groups_only :: "regex \<Rightarrow> bool" where
  "digit_groups_only (Group n r) = (r = Plus Digit)"
| "digit_groups_only (Opt r) = digit_groups_only r"
| "digit_groups_only (Seq rs) = list_all digit_groups_only rs"
| "digit_groups_only (Alt a b) = (digit_groups_only a \<and> digit_groups_only b)"
| "digit_groups_only (Ahead r) = digit_groups_only r"
| "digit_groups_only r = True"

fun must_set :: "regex \<Rightarrow> nat set" where
  "must_set (Group n r) = {n}"
| "must_set (Seq rs) = \<Union> (set (map must_set rs))"
| "must_set (Alt a b) = must_set a \<inter> must_set b"
| "must_set (Ahead r) = must_set r"
| "must_set r = {}"

definition digit_text :: "py_runtime \<Rightarrow> nat \<Rightarrow> str \<Rightarrow> bool" where
  "digit_text P N t \<longleftrightarrow> t \<noteq> [] \<and> list_all (\<lambda>c. rt_decimal P c \<noteq> None) t \<and> length t \<le> N"

definition ok_groups :: "py_runtime \<Rightarrow> nat \<Rightarrow> groups \<Rightarrow> bool" where
  "ok_groups P N g \<longleftrightarrow> (\<forall>n t. g n = Some t \<longrightarrow> digit_text P N t)"

text \<open>The messages on which the digit limit of \<open>int\<close> cannot be reached.\<close>

definition within_digit_limit :: "py_runtime \<Rightarrow> nat \<Rightarrow> bool" where
  "within_digit_limit P n \<longleftrightarrow>
     rt_int_max_str_digits P = 0 \<or> n \<le> 640 \<or> n \<le> rt_int_max_str_digits P"

section \<open>Properties\<close>

text \<open>
  The recursion equations of the functions defined by a measure are used where an
  example is evaluated, and only there.
\<close>

declare findall_matches.simps [simp del]
declare replace.simps [simp del]
declare split_ws.simps [simp del]
declare digits_of.simps [simp del]

subsection \<open>The validator\<close>

lemma strip_Nil: "strip [] = []"
  by (simp add: strip_def lstrip_def rstrip_def)

text \<open>
  C10: for a task type outside the six with validation rules (the value of
  \<open>MULTIMODAL\<close>, or any other string), \<open>validate_input\<close> returns \<open>valid = True\<close> and no
  error, whatever the message and the file count.
\<close>

theorem validate_input_other_task_type:
  assumes "task_type \<notin> {asc ''batch_image_generation'', asc ''text_to_image'',
             asc ''image_to_image'', asc ''image_to_video'', asc ''first_to_last_frame'',
             asc ''text_to_video''}"
  shows "validate_input task_type message file_count = \<lparr>valid = True, errors = []\<rparr>"
  using assms by (simp add: validate_input_def)

theorem validate_input_other_task_type_witness:
  "validate_input (task_value MULTIMODAL) (asc ''hi'') 0 = \<lparr>valid = True, errors = []\<rparr>
   \<and> validate_input (asc ''no_such_task'') [] (-3) = \<lparr>valid = True, errors = []\<rparr>"
proof -
  have a: "task_value MULTIMODAL \<notin> {asc ''batch_image_generation'', asc ''text_to_image'',
             asc ''image_to_image'', asc ''image_to_video'', asc ''first_to_last_frame'',
             asc ''text_to_video''}"
    by (simp add: asc_def)
  have b: "asc ''no_such_task'' \<notin> {asc ''batch_image_generation'', asc ''text_to_image'',
             asc ''image_to_image'', asc ''image_to_video'', asc ''first_to_last_frame'',
             asc ''text_to_video''}"
    by (simp add: asc_def)
  show ?thesis
    using validate_input_other_task_type [OF a, of "asc ''hi''" 0]
      validate_input_other_task_type [OF b, of "[]" "-3"]
    by simp
qed

lemma append_if_Nil: "append_if c e [] = (if c then [e] else [])"
  by (simp add: append_if_def)

lemma append_if_one: "append_if c e [x] = (if c then [x, e] else [x])"
  by (simp add: append_if_def)

lemma append_if_two: "append_if c e [x, y] = (if c then [x, y, e] else [x, y])"
  by (simp add: append_if_def)

lemma strip_empty_short:
  "0 < n \<Longrightarrow> (message = [] \<or> length (strip message) < n) = (\<not> n \<le> length (strip message))"
  by (auto simp: strip_Nil)

text \<open>
  C7: \<open>validate_input\<close> evaluates every rule of the task type and appends the message
  of each rule that fails, in order: for a file count that is not negative, its errors
  are exactly the messages of the failing rules of the specification's table, and
  \<open>valid\<close> is true if and only if there is no error. For the batch task type, the empty
  message and no file, it returns \<open>valid = False\<close> and three errors, all different.
\<close>

theorem validate_input_rules:
  assumes "0 \<le> file_count"
  shows "errors (validate_input task_type message file_count)
           = failing_messages (spec_rules task_type message file_count)
       \<and> valid (validate_input task_type message file_count)
           = (errors (validate_input task_type message file_count) = [])
       \<and> validate_input (task_value BATCH_IMAGE_GENERATION) [] 0
           = \<lparr>valid = False, errors = [err_batch_files, err_batch_message, err_batch_scenes]\<rparr>
       \<and> distinct [err_batch_files, err_batch_message, err_batch_scenes]"
proof -
  have neg: "(file_count = 0) = (\<not> 1 \<le> file_count)" "(file_count < 2) = (\<not> 2 \<le> file_count)"
    using assms by auto
  have a: "errors (validate_input task_type message file_count)
           = failing_messages (spec_rules task_type message file_count)"
    unfolding validate_input_def spec_rules_def failing_messages_def Let_def
    by (simp add: append_if_Nil append_if_one append_if_two strip_empty_short neg)
  have b: "valid (validate_input task_type message file_count)
           = (errors (validate_input task_type message file_count) = [])"
    by (simp add: validate_input_def Let_def)
  have c: "validate_input (task_value BATCH_IMAGE_GENERATION) [] 0
           = \<lparr>valid = False, errors = [err_batch_files, err_batch_message, err_batch_scenes]\<rparr>"
    by (simp add: validate_input_def Let_def append_if_def strip_Nil any_in_def scene_keywords_def)
  have d: "distinct [err_batch_files, err_batch_message, err_batch_scenes]"
    by (simp add: err_batch_files_def err_batch_message_def err_batch_scenes_def)
  from a b c d show ?thesis by blast
qed

theorem validate_input_rules_witness:
  "(0::int) \<le> 1
   \<and> errors (validate_input (asc ''image_to_image'') [] 1) = [err_i2i_message]
   \<and> failing_messages (spec_rules (asc ''image_to_image'') [] 1) = [err_i2i_message]
   \<and> valid (validate_input (asc ''image_to_image'') [] 1) = False"
proof -
  have h: "(0::int) \<le> 1" by simp
  have e: "failing_messages (spec_rules (asc ''image_to_image'') [] 1) = [err_i2i_message]"
    by (simp add: spec_rules_def failing_messages_def asc_def)
  show ?thesis
    using validate_input_rules [OF h, of "asc ''image_to_image''" "[]"] e by simp
qed

subsection \<open>The confidence\<close>

lemma rounding_nonneg: "rounding fl \<Longrightarrow> 0 \<le> x \<Longrightarrow> 0 \<le> fl x"
  unfolding rounding_def by metis

lemma rounding_add_nonneg:
  "rounding fl \<Longrightarrow> 0 \<le> c \<Longrightarrow> 0 \<le> d \<Longrightarrow> 0 \<le> fl (c + fl d)"
  by (simp add: rounding_nonneg)

text \<open>
  C9: for every message, file count and task type, the confidence is between 0 and 1,
  both included, whatever the rounding of the floating-point format does to the sums;
  so is the confidence in every result of \<open>analyze_intent\<close>.
\<close>

theorem calculate_confidence_range:
  assumes "rounding fl"
  shows "0 \<le> calculate_confidence fl P message file_count task_type
       \<and> calculate_confidence fl P message file_count task_type \<le> 1
       \<and> (case analyze_intent fl P message file_count of
             Inl e \<Rightarrow> True
           | Inr result \<Rightarrow>
               (case get_confidence result of
                  None \<Rightarrow> False
                | Some c \<Rightarrow> 0 \<le> c \<and> c \<le> 1))"
proof -
  have one: "fl 1 = 1" using assms by (simp add: rounding_def)
  have base: "0 \<le> fl (5/10)" using assms by (simp add: rounding_nonneg)
  have step: "\<And>c d. 0 \<le> c \<Longrightarrow> 0 \<le> d \<Longrightarrow> 0 \<le> fl (c + fl d)"
    using assms by (rule rounding_add_nonneg)
  have range: "\<And>m n t. 0 \<le> calculate_confidence fl P m n t
                     \<and> calculate_confidence fl P m n t \<le> 1"
    unfolding calculate_confidence_def Let_def one
    using base by (auto intro!: step)
  have "case analyze_intent fl P message file_count of
          Inl e \<Rightarrow> True
        | Inr result \<Rightarrow>
            (case get_confidence result of
               None \<Rightarrow> False
             | Some c \<Rightarrow> 0 \<le> c \<and> c \<le> 1)"
    using range by (auto simp: analyze_intent_def Let_def split: sum.splits)
  with range show ?thesis by blast
qed

theorem calculate_confidence_range_witness:
  "rounding (\<lambda>x. x)
   \<and> 0 \<le> calculate_confidence (\<lambda>x. x) ascii_runtime (asc ''4 scenes'') 1 BATCH_IMAGE_GENERATION
   \<and> calculate_confidence (\<lambda>x. x) ascii_runtime (asc ''4 scenes'') 1 BATCH_IMAGE_GENERATION \<le> 1
   \<and> calculate_confidence (\<lambda>x. x) ascii_runtime (asc ''4 scenes'') 1 BATCH_IMAGE_GENERATION = 1
   \<and> calculate_confidence (\<lambda>x. x) ascii_runtime (asc ''a cat'') 0 TEXT_TO_IMAGE = 1/2"
proof -
  have r: "rounding (\<lambda>x. x)" by (simp add: rounding_def)
  have a: "calculate_confidence (\<lambda>x. x) ascii_runtime (asc ''4 scenes'') 1
             BATCH_IMAGE_GENERATION = 1"
    by (simp add: calculate_confidence_def ascii_runtime_def any_in_def asc_def
        confidence_batch_keywords_def scene_keywords_def)
  have b: "calculate_confidence (\<lambda>x. x) ascii_runtime (asc ''a cat'') 0 TEXT_TO_IMAGE = 1/2"
    by (simp add: calculate_confidence_def any_in_def asc_def image_gen_def)
  show ?thesis
    using r calculate_confidence_range [OF r, of ascii_runtime "asc ''4 scenes''" 1
        BATCH_IMAGE_GENERATION] a b
    by simp
qed


subsection \<open>The scene splitter and the planner\<close>

lemmas eval_scenes =
  parse_scenes_def scene_patterns_def re_findall_def findall_matches.simps match_here_def
  literal_chars_def findall_item_of_def group_text_def strip_def lstrip_def rstrip_def
  isspace_def Let_def

lemma parse_scenes_numeral_markers:
  "parse_scenes P
     [22580, 26223, 19968, 65306, 35987, 22312, 36339, 33310, 10,
      22580, 26223, 20108, 65306, 29399, 22312, 36305, 27493]
   = Inr [[22312], [22312]]"
  by (simp add: eval_scenes)

lemma parse_scenes_digit_markers:
  "parse_scenes ascii_runtime
     [22580, 26223, 49, 65306, 35987, 22312, 36339, 33310, 10,
      22580, 26223, 50, 65306, 29399, 22312, 36305, 27493]
   = Inr [[35987, 22312, 36339, 33310], [29399, 22312, 36305, 27493]]"
  by (simp add: eval_scenes ascii_runtime_def)

lemma parse_scenes_empty_capture:
  "parse_scenes P [22580, 26223, 19968, 65306] = Inl IndexError"
  by (simp add: eval_scenes)

lemma parse_scenes_no_marker:
  "parse_scenes P (asc ''nothing'') = Inr []"
  by (simp add: eval_scenes asc_def)


text \<open>
  C1: on the example of the specification (scene one, colon, four characters, a line
  feed, scene two, colon, four characters) \<open>_parse_scenes\<close> returns twice the one
  character U+5728, the second character of each scene text, and not the two scene
  texts: the first pattern has one group, so \<open>findall\<close> returns strings, and
  \<open>match[1]\<close> is a character of the string. With the markers written with digits the
  second pattern, which has two groups, returns the two scene texts. On a marker with
  nothing after it the same indexing raises \<open>IndexError\<close>.
\<close>

theorem parse_scenes_spec_example:
  "parse_scenes P
     [22580, 26223, 19968, 65306, 35987, 22312, 36339, 33310, 10,
      22580, 26223, 20108, 65306, 29399, 22312, 36305, 27493]
   = Inr [[22312], [22312]]
   \<and> parse_scenes P
     [22580, 26223, 19968, 65306, 35987, 22312, 36339, 33310, 10,
      22580, 26223, 20108, 65306, 29399, 22312, 36305, 27493]
   \<noteq> Inr [[35987, 22312, 36339, 33310], [29399, 22312, 36305, 27493]]
   \<and> parse_scenes ascii_runtime
     [22580, 26223, 49, 65306, 35987, 22312, 36339, 33310, 10,
      22580, 26223, 50, 65306, 29399, 22312, 36305, 27493]
   = Inr [[35987, 22312, 36339, 33310], [29399, 22312, 36305, 27493]]
   \<and> parse_scenes P [22580, 26223, 19968, 65306] = Inl IndexError"
  by (simp add: parse_scenes_numeral_markers parse_scenes_digit_markers
      parse_scenes_empty_capture)

lemma plan_loop:
  "foldl (\<lambda>execution_plan (i, scene_desc). execution_plan @ [f i scene_desc]) acc ixs
   = acc @ map (\<lambda>(i, scene_desc). f i scene_desc) ixs"
  by (induction ixs arbitrary: acc) (auto)

lemma enumerate_from_length: "length (enumerate_from k xs) = length xs"
  by (induction xs arbitrary: k) auto

lemma enumerate_from_fst: "map fst (enumerate_from k xs) = [k..k + int (length xs) - 1]"
proof (induction xs arbitrary: k)
  case Nil
  then show ?case by simp
next
  case (Cons x xs)
  have "[k..k + int (length (x # xs)) - 1] = k # [k + 1..k + 1 + int (length xs) - 1]"
    by (simp add: upto_rec1 add.commute add.left_commute)
  with Cons show ?case by simp
qed

lemma enumerate_from_snd: "map snd (enumerate_from k xs) = xs"
  by (induction xs arbitrary: k) auto

lemma parse_scenes_at_most_4: "parse_scenes P prompt = Inr scenes \<Longrightarrow> length scenes \<le> 4"
  by (auto simp: parse_scenes_def Let_def split: sum.splits if_splits)

lemma batch_keys:
  "parameters (batch_step fps scenes i sd) (asc ''prompt'') = Some (PStr sd)"
  "parameters (batch_step fps scenes i sd) (asc ''filePaths'') = Some (PList fps)"
  "parameters (batch_step fps scenes i sd) (asc ''is_batch'') = Some (PBool True)"
  "parameters (batch_step fps scenes i sd) (asc ''batch_index'') = Some (PInt i)"
  "parameters (batch_step fps scenes i sd) (asc ''total_batches'') = Some (PInt (int (length scenes)))"
  "step (batch_step fps scenes i sd) = i"
  "action (batch_step fps scenes i sd) = Some (asc ''image_to_image'')"
  by (simp_all add: batch_step_def asc_def)

lemma plan_batch_generation_steps:
  assumes "parse_scenes P (case get_prompt intent of None \<Rightarrow> [] | Some p \<Rightarrow> p) = Inr scenes"
  shows "plan_batch_generation P intent =
           Inr (map (\<lambda>(i, scene_desc).
                  batch_step (case get_filePaths intent of None \<Rightarrow> [] | Some fs \<Rightarrow> fs)
                    scenes i scene_desc)
                 (enumerate_from 1 scenes))"
  using assms by (simp add: plan_batch_generation_def Let_def plan_loop)

text \<open>
  C8: when the task type is batch generation and \<open>_parse_scenes\<close> returns no scene
  for the prompt, \<open>plan_execution\<close> returns the empty plan, and no error.
\<close>

theorem plan_execution_empty:
  assumes "get_taskType intent = Some (task_value BATCH_IMAGE_GENERATION)"
      and "parse_scenes P (case get_prompt intent of None \<Rightarrow> [] | Some p \<Rightarrow> p) = Inr []"
  shows "plan_execution P intent = Inr []"
  using assms by (simp add: plan_execution_def plan_batch_generation_steps)

theorem plan_execution_empty_witness:
  "plan_execution ascii_runtime
     \<lparr>get_taskType = Some (task_value BATCH_IMAGE_GENERATION),
      get_prompt = Some (asc ''nothing''),
      get_fileCount = Some 1, get_reasoning = None, get_parameters = None,
      get_confidence = None, get_filePaths = Some [asc ''ref.png'']\<rparr> = Inr []"
  using plan_execution_empty [of "\<lparr>get_taskType = Some (task_value BATCH_IMAGE_GENERATION),
      get_prompt = Some (asc ''nothing''),
      get_fileCount = Some 1, get_reasoning = None, get_parameters = None,
      get_confidence = None, get_filePaths = Some [asc ''ref.png'']\<rparr>" ascii_runtime]
  by (simp add: parse_scenes_no_marker)

text \<open>
  C2: when the task type is batch generation and \<open>_parse_scenes\<close> returns \<open>N\<close> scenes
  for the prompt, with \<open>N\<close> at least 1 (it is at most 4), \<open>plan_execution\<close> returns \<open>N\<close>
  steps: their \<open>step\<close> values are 1 to \<open>N\<close> in order, every action is
  \<open>image_to_image\<close>, the prompts are the scenes in order, \<open>batch_index\<close> is the step
  value, \<open>total_batches\<close> is \<open>N\<close> and \<open>filePaths\<close> is the whole list of the intent on
  every step.
\<close>

theorem plan_execution_batch_steps:
  assumes "get_taskType intent = Some (task_value BATCH_IMAGE_GENERATION)"
      and "parse_scenes P (case get_prompt intent of None \<Rightarrow> [] | Some p \<Rightarrow> p) = Inr scenes"
      and "1 \<le> length scenes"
  shows "case plan_execution P intent of
           Inl e \<Rightarrow> False
         | Inr steps \<Rightarrow>
             length scenes \<le> 4
             \<and> length steps = length scenes
             \<and> map step steps = [1..int (length scenes)]
             \<and> map action steps = replicate (length scenes) (Some (task_value IMAGE_TO_IMAGE))
             \<and> map (\<lambda>s. parameters s (asc ''prompt'')) steps = map (\<lambda>t. Some (PStr t)) scenes
             \<and> map (\<lambda>s. parameters s (asc ''batch_index'')) steps
                 = map (\<lambda>i. Some (PInt i)) [1..int (length scenes)]
             \<and> map (\<lambda>s. parameters s (asc ''total_batches'')) steps
                 = replicate (length scenes) (Some (PInt (int (length scenes))))
             \<and> map (\<lambda>s. parameters s (asc ''filePaths'')) steps
                 = replicate (length scenes)
                     (Some (PList (case get_filePaths intent of None \<Rightarrow> [] | Some fs \<Rightarrow> fs)))"
proof -
  let ?fps = "case get_filePaths intent of None \<Rightarrow> [] | Some fs \<Rightarrow> fs"
  let ?steps = "map (\<lambda>(i, scene_desc). batch_step ?fps scenes i scene_desc)
                  (enumerate_from 1 scenes)"
  have plan: "plan_execution P intent = Inr ?steps"
    using assms(1,2) by (simp add: plan_execution_def plan_batch_generation_steps)
  have comp: "\<And>f g. map f ?steps = map (\<lambda>(i, sd). f (batch_step ?fps scenes i sd)) (enumerate_from 1 scenes)"
    by (simp add: case_prod_unfold comp_def)
  have fst: "\<And>h. map (\<lambda>(i, sd). h i) (enumerate_from 1 scenes) = map h [1..int (length scenes)]"
  proof -
    fix h :: "int \<Rightarrow> 'b"
    have "map (\<lambda>(i, sd). h i) (enumerate_from 1 scenes) = map h (map fst (enumerate_from 1 scenes))"
      by (simp add: case_prod_unfold comp_def)
    then show "map (\<lambda>(i, sd). h i) (enumerate_from 1 scenes) = map h [1..int (length scenes)]"
      by (simp add: enumerate_from_fst)
  qed
  have snd: "\<And>h. map (\<lambda>(i, sd). h sd) (enumerate_from 1 scenes) = map h scenes"
  proof -
    fix h :: "str \<Rightarrow> 'b"
    have "map (\<lambda>(i, sd). h sd) (enumerate_from 1 scenes) = map h (map snd (enumerate_from 1 scenes))"
      by (simp add: case_prod_unfold comp_def)
    then show "map (\<lambda>(i, sd). h sd) (enumerate_from 1 scenes) = map h scenes"
      by (simp add: enumerate_from_snd)
  qed
  have const: "\<And>c. map (\<lambda>(i, sd). c) (enumerate_from 1 scenes) = replicate (length scenes) c"
    by (simp add: map_replicate_const case_prod_unfold enumerate_from_length)
  have 1: "length scenes \<le> 4" using assms(2) by (rule parse_scenes_at_most_4)
  have 2: "length ?steps = length scenes" by (simp add: enumerate_from_length)
  have 3: "map step ?steps = [1..int (length scenes)]"
    unfolding comp batch_keys using fst [of "\<lambda>i. i"] by simp
  have 4: "map action ?steps = replicate (length scenes) (Some (task_value IMAGE_TO_IMAGE))"
    unfolding comp batch_keys by (simp add: const)
  have 5: "map (\<lambda>s. parameters s (asc ''prompt'')) ?steps = map (\<lambda>t. Some (PStr t)) scenes"
    unfolding comp batch_keys by (rule snd)
  have 6: "map (\<lambda>s. parameters s (asc ''batch_index'')) ?steps
             = map (\<lambda>i. Some (PInt i)) [1..int (length scenes)]"
    unfolding comp batch_keys by (rule fst)
  have 7: "map (\<lambda>s. parameters s (asc ''total_batches'')) ?steps
             = replicate (length scenes) (Some (PInt (int (length scenes))))"
    unfolding comp batch_keys by (rule const)
  have 8: "map (\<lambda>s. parameters s (asc ''filePaths'')) ?steps
             = replicate (length scenes) (Some (PList ?fps))"
    unfolding comp batch_keys by (rule const)
  show ?thesis
    unfolding plan sum.case using 1 2 3 4 5 6 7 8 by blast
qed

theorem plan_execution_batch_steps_witness:
  "case plan_execution ascii_runtime
          \<lparr>get_taskType = Some (task_value BATCH_IMAGE_GENERATION),
           get_prompt = Some [22580, 26223, 49, 65306, 35987, 22312, 36339, 33310, 10,
                              22580, 26223, 50, 65306, 29399, 22312, 36305, 27493],
           get_fileCount = Some 1, get_reasoning = None, get_parameters = None,
           get_confidence = None, get_filePaths = Some [asc ''ref.png'']\<rparr> of
     Inl e \<Rightarrow> False
   | Inr steps \<Rightarrow>
       map step steps = [1, 2]
       \<and> map action steps = [Some (asc ''image_to_image''), Some (asc ''image_to_image'')]
       \<and> map (\<lambda>s. parameters s (asc ''prompt'')) steps
           = [Some (PStr [35987, 22312, 36339, 33310]), Some (PStr [29399, 22312, 36305, 27493])]
       \<and> map (\<lambda>s. parameters s (asc ''total_batches'')) steps = [Some (PInt 2), Some (PInt 2)]
       \<and> map (\<lambda>s. parameters s (asc ''filePaths'')) steps
           = [Some (PList [asc ''ref.png'']), Some (PList [asc ''ref.png''])]"
  using plan_execution_batch_steps
    [of "\<lparr>get_taskType = Some (task_value BATCH_IMAGE_GENERATION),
           get_prompt = Some [22580, 26223, 49, 65306, 35987, 22312, 36339, 33310, 10,
                              22580, 26223, 50, 65306, 29399, 22312, 36305, 27493],
           get_fileCount = Some 1, get_reasoning = None, get_parameters = None,
           get_confidence = None, get_filePaths = Some [asc ''ref.png'']\<rparr>"
        ascii_runtime
        "[[35987, 22312, 36339, 33310], [29399, 22312, 36305, 27493]]"]
  by (simp add: parse_scenes_digit_markers upto.simps split: sum.splits)

subsection \<open>The parameter extractor\<close>

lemmas eval_search = match_here_def literal_chars_def isspace_def Let_def asc_def

lemma key_distinct:
  "asc ''duration'' \<noteq> asc ''size''" "asc ''duration'' \<noteq> asc ''style''"
  "asc ''size'' \<noteq> asc ''style''" "asc ''size'' \<noteq> asc ''duration''"
  "asc ''style'' \<noteq> asc ''duration''" "asc ''style'' \<noteq> asc ''size''"
  by (simp_all add: asc_def)

lemma extract_style_other:
  "k \<noteq> asc ''style'' \<Longrightarrow> extract_style P sk message params k = params k"
  by (induction sk) auto

lemma extract_style_key:
  "extract_style P sk message params (asc ''style'') \<noteq> None \<longleftrightarrow>
     params (asc ''style'') \<noteq> None
     \<or> list_ex (\<lambda>(style, keywords). any_in (rt_lower P message) keywords) sk"
  by (induction sk) auto

lemma extract_size_other:
  "extract_size P pats message params = Inr q \<Longrightarrow> k \<noteq> asc ''size'' \<Longrightarrow> q k = params k"
  by (induction pats) (auto split: option.splits sum.splits)

lemma extract_size_key:
  "extract_size P pats message params = Inr q \<Longrightarrow>
   q (asc ''size'') \<noteq> None \<longleftrightarrow>
     params (asc ''size'') \<noteq> None
     \<or> list_ex (\<lambda>pattern. re_search False P pattern message \<noteq> None) pats"
  by (induction pats) (auto split: option.splits sum.splits)

lemma extract_duration_other:
  "extract_duration P message params = Inr q \<Longrightarrow> k \<noteq> asc ''duration'' \<Longrightarrow> q k = params k"
  by (auto simp: extract_duration_def split: option.splits sum.splits)

lemma extract_duration_key:
  "extract_duration P message params = Inr q \<Longrightarrow>
   \<exists>d. q (asc ''duration'') = Some (PInt d) \<and> 1 \<le> d \<and> d \<le> 10
       \<and> (re_search True P duration_pattern message = None \<longrightarrow> d = 5)"
  by (auto simp: extract_duration_def split: option.splits sum.splits)

lemma rep_greedy_cont:
  "rep_greedy p s k = Some res \<Longrightarrow>
   \<exists>n\<le>length s. list_all p (take n s) \<and> k (drop n s) = Some res"
proof (induction s)
  case Nil
  then show ?case by simp
next
  case (Cons c cs)
  show ?case
  proof (cases "p c \<and> rep_greedy p cs k \<noteq> None")
    case True
    with Cons.prems have "rep_greedy p cs k = Some res" by (auto split: option.splits)
    from Cons.IH [OF this] obtain n where "n \<le> length cs" "list_all p (take n cs)"
      "k (drop n cs) = Some res" by blast
    with True show ?thesis by (intro exI [of _ "Suc n"]) simp
  next
    case False
    with Cons.prems have "k (c # cs) = Some res" by (auto split: option.splits if_splits)
    then show ?thesis by (intro exI [of _ 0]) simp
  qed
qed

lemma rep_lazy_cont:
  "rep_lazy p s k = Some res \<Longrightarrow>
   \<exists>n\<le>length s. list_all p (take n s) \<and> k (drop n s) = Some res"
proof (induction s)
  case Nil
  then show ?case by simp
next
  case (Cons c cs)
  show ?case
  proof (cases "k (c # cs)")
    case (Some r)
    with Cons.prems have "k (c # cs) = Some res" by simp
    then show ?thesis by (intro exI [of _ 0]) simp
  next
    case None
    with Cons.prems have pc: "p c" and "rep_lazy p cs k = Some res"
      by (auto split: if_splits)
    from Cons.IH [OF this(2)] obtain n where "n \<le> length cs" "list_all p (take n cs)"
      "k (drop n cs) = Some res" by blast
    with pc show ?thesis by (intro exI [of _ "Suc n"]) simp
  qed
qed

lemma re_match_inv:
  "re_match ic P r s g k = Some res \<Longrightarrow> digit_groups_only r \<Longrightarrow> ok_groups P N g \<Longrightarrow>
   length s \<le> N \<Longrightarrow>
   \<exists>s' g'. k s' g' = Some res \<and> ok_groups P N g' \<and> length s' \<le> length s
           \<and> dom g \<union> must_set r \<subseteq> dom g'"
proof (induction ic P r s g k arbitrary: res rule: re_match.induct)
  case (1 ic P c s g k)
  then obtain ch rest where "s = ch # rest" "k rest g = Some res"
    by (cases s) (auto split: if_splits)
  with 1 show ?case by (intro exI [of _ rest] exI [of _ g]) simp
next
  case (2 ic P cs s g k)
  then obtain ch rest where "s = ch # rest" "k rest g = Some res"
    by (cases s) (auto split: if_splits)
  with 2 show ?case by (intro exI [of _ rest] exI [of _ g]) simp
next
  case (3 ic P cs s g k)
  from rep_greedy_cont [of "in_cset P cs" s "\<lambda>rest. k rest g" res] 3
  obtain n where "k (drop n s) g = Some res" by auto
  with 3 show ?case by (intro exI [of _ "drop n s"] exI [of _ g]) simp
next
  case (4 ic P cs s g k)
  then obtain ch rest where s: "s = ch # rest" and
    r: "rep_greedy (in_cset P cs) rest (\<lambda>rest. k rest g) = Some res"
    by (cases s) (auto split: if_splits)
  from rep_greedy_cont [OF r] obtain n where "k (drop n rest) g = Some res" by auto
  with 4 s show ?case by (intro exI [of _ "drop n rest"] exI [of _ g]) simp
next
  case (5 ic P cs s g k)
  from rep_lazy_cont [of "in_cset P cs" s "\<lambda>rest. k rest g" res] 5
  obtain n where "k (drop n s) g = Some res" by auto
  with 5 show ?case by (intro exI [of _ "drop n s"] exI [of _ g]) simp
next
  case (6 ic P r s g k)
  show ?case
  proof (cases "re_match ic P r s g k")
    case None
    with 6 have "k s g = Some res" by simp
    with 6 show ?thesis by (intro exI [of _ s] exI [of _ g]) simp
  next
    case (Some x)
    with 6 have "re_match ic P r s g k = Some res" by simp
    from "6.IH" [OF this] 6 obtain s' g' where "k s' g' = Some res" "ok_groups P N g'"
      "length s' \<le> length s" "dom g \<union> must_set r \<subseteq> dom g'" by auto
    then have "k s' g' = Some res" "ok_groups P N g'" "length s' \<le> length s"
      "dom g \<union> must_set (Opt r) \<subseteq> dom g'" by simp_all
    then show ?thesis by blast
  qed
next
  case (7 ic P n r s g k)
  then have r: "r = Plus Digit" by simp
  let ?K = "\<lambda>rest g'. k rest (g'(n \<mapsto> take (length s - length rest) s))"
  from 7 r obtain ch rest where s: "s = ch # rest" and d: "rt_decimal P ch \<noteq> None" and
    g: "rep_greedy (in_cset P Digit) rest (\<lambda>rest. ?K rest g) = Some res"
    by (cases s) (auto split: if_splits)
  from rep_greedy_cont [OF g] obtain m where m: "m \<le> length rest"
    "list_all (in_cset P Digit) (take m rest)"
    "k (drop m rest) (g(n \<mapsto> take (length s - length (drop m rest)) s)) = Some res"
    by auto
  have t: "take (length s - length (drop m rest)) s = ch # take m rest"
    using m(1) s by (simp add: Suc_diff_le)
  have "digit_text P N (ch # take m rest)"
    using d m(1,2) s "7.prems"(4) by (simp add: digit_text_def list_all_iff)
  with "7.prems"(3) have "ok_groups P N (g(n \<mapsto> ch # take m rest))"
    by (simp add: ok_groups_def)
  then have ok: "ok_groups P N (g(n \<mapsto> ch # take m rest))" .
  have k: "k (drop m rest) (g(n \<mapsto> ch # take m rest)) = Some res"
    using m(3) t by simp
  have len: "length (drop m rest) \<le> length s" using s by simp
  have dom: "dom g \<union> must_set (Group n r) \<subseteq> dom (g(n \<mapsto> ch # take m rest))"
    by auto
  from k ok len dom show ?case by blast
next
  case (8 ic P s g k)
  then show ?case by (intro exI [of _ s] exI [of _ g]) simp
next
  case (9 ic P r rs s g k)
  from "9.prems" have m: "re_match ic P r s g (\<lambda>rest g'. re_match ic P (Seq rs) rest g' k) = Some res"
    by simp
  from "9.prems" have dr: "digit_groups_only r" and drs: "digit_groups_only (Seq rs)" by simp_all
  from "9.IH"(2) [OF m dr "9.prems"(3,4)] obtain s1 g1 where
    1: "re_match ic P (Seq rs) s1 g1 k = Some res" "ok_groups P N g1" "length s1 \<le> length s"
       "dom g \<union> must_set r \<subseteq> dom g1" by blast
  from 1(3) "9.prems"(4) have "length s1 \<le> N" by simp
  from "9.IH"(1) [OF 1(1) drs 1(2) this] obtain s' g' where
    2: "k s' g' = Some res" "ok_groups P N g'" "length s' \<le> length s1"
       "dom g1 \<union> must_set (Seq rs) \<subseteq> dom g'" by blast
  have len: "length s' \<le> length s" using 1(3) 2(3) by simp
  have "must_set (Seq (r # rs)) = must_set r \<union> must_set (Seq rs)" by simp
  then have dom: "dom g \<union> must_set (Seq (r # rs)) \<subseteq> dom g'"
    using 1(4) 2(4) by blast
  from 2(1,2) len dom show ?case by blast
next
  case (10 ic P a b s g k)
  show ?case
  proof (cases "re_match ic P a s g k")
    case None
    with 10 have "re_match ic P b s g k = Some res" by simp
    from "10.IH"(2) [OF None this] 10 obtain s' g' where "k s' g' = Some res" "ok_groups P N g'"
      "length s' \<le> length s" "dom g \<union> must_set b \<subseteq> dom g'" by auto
    moreover from this have "dom g \<union> must_set (Alt a b) \<subseteq> dom g'" by auto
    ultimately show ?thesis by blast
  next
    case (Some x)
    with 10 have "re_match ic P a s g k = Some res" by simp
    from "10.IH"(1) [OF this] 10 obtain s' g' where "k s' g' = Some res" "ok_groups P N g'"
      "length s' \<le> length s" "dom g \<union> must_set a \<subseteq> dom g'" by auto
    moreover from this have "dom g \<union> must_set (Alt a b) \<subseteq> dom g'" by auto
    ultimately show ?thesis by blast
  qed
next
  case (11 ic P r s g k)
  from "11.prems"(1) obtain rest g1 where
    a: "re_match ic P r s g (\<lambda>rest g'. Some (rest, g')) = Some (rest, g1)" and
    k: "k s g1 = Some res"
    by (auto split: option.splits)
  from "11.IH" [OF a] "11.prems" obtain s' g' where "Some (s', g') = Some (rest, g1)"
    "ok_groups P N g'" "dom g \<union> must_set r \<subseteq> dom g'" by auto
  then have "ok_groups P N g1" "dom g \<union> must_set (Ahead r) \<subseteq> dom g1" by simp_all
  with k show ?case by (intro exI [of _ s] exI [of _ g1]) simp
next
  case (12 ic P s g k)
  then have "k s g = Some res" by (auto split: if_splits)
  with 12 show ?case by (intro exI [of _ s] exI [of _ g]) simp
qed


lemma match_here_inv:
  assumes "match_here ic P r s = Some (rest, g)" and "digit_groups_only r"
  shows "ok_groups P (length s) g \<and> must_set r \<subseteq> dom g"
proof -
  have "ok_groups P (length s) Map.empty" by (simp add: ok_groups_def)
  from re_match_inv [OF assms(1) [unfolded match_here_def] assms(2) this]
  show ?thesis by auto
qed

lemma re_search_match:
  "re_search ic P r s = Some g \<Longrightarrow>
   \<exists>t rest. length t \<le> length s \<and> match_here ic P r t = Some (rest, g)"
proof (induction s)
  case Nil
  then show ?case by (cases "match_here ic P r []") auto
next
  case (Cons c cs)
  show ?case
  proof (cases "match_here ic P r (c # cs)")
    case None
    with Cons.prems have "re_search ic P r cs = Some g" by simp
    from Cons.IH [OF this] obtain t rest where "length t \<le> length cs"
      "match_here ic P r t = Some (rest, g)" by blast
    then show ?thesis by (intro exI [of _ t] exI [of _ rest]) simp
  next
    case (Some x)
    with Cons.prems have "match_here ic P r (c # cs) = Some (fst x, g)"
      by (cases x) simp
    then show ?thesis by (intro exI [of _ "c # cs"] exI [of _ "fst x"]) simp
  qed
qed

lemma ok_groups_mono:
  assumes "ok_groups P N g" and "N \<le> M"
  shows "ok_groups P M g"
  unfolding ok_groups_def
proof (intro allI impI)
  fix n t
  assume "g n = Some t"
  with assms(1) have "digit_text P N t" by (simp add: ok_groups_def)
  with assms(2) show "digit_text P M t" by (simp add: digit_text_def)
qed

lemma re_search_inv:
  assumes "re_search ic P r s = Some g" and "digit_groups_only r"
  shows "ok_groups P (length s) g \<and> must_set r \<subseteq> dom g"
proof -
  from re_search_match [OF assms(1)] obtain t rest where
    t: "length t \<le> length s" "match_here ic P r t = Some (rest, g)" by blast
  from match_here_inv [OF t(2) assms(2)] t(1) show ?thesis
    by (auto intro: ok_groups_mono)
qed

lemma decimal_values_digits:
  "list_all (\<lambda>c. rt_decimal P c \<noteq> None) t \<Longrightarrow> decimal_values P t \<noteq> None"
  by (induction t) (auto split: option.splits)

lemma int_of_str_returns:
  assumes "digit_text P N t" and "within_digit_limit P N"
  shows "\<exists>i. int_of_str P t = Inr i"
proof -
  from assms(1) have ne: "t \<noteq> []" and len: "length t \<le> N" and
    "list_all (\<lambda>c. rt_decimal P c \<noteq> None) t" by (simp_all add: digit_text_def)
  then obtain ds where "decimal_values P t = Some ds"
    using decimal_values_digits [of P t] by auto
  moreover have "\<not> (length t > 640 \<and> rt_int_max_str_digits P > 0
                    \<and> length t > rt_int_max_str_digits P)"
    using assms(2) len by (auto simp: within_digit_limit_def)
  ultimately show ?thesis using ne by (simp add: int_of_str_def)
qed

lemma int_of_group_returns:
  assumes "ok_groups P N g" and "n \<in> dom g" and "within_digit_limit P N"
  shows "\<exists>i. int_of_group P (g n) = Inr i"
proof -
  from assms(2) obtain t where t: "g n = Some t" by auto
  with assms(1) have "digit_text P N t" by (simp add: ok_groups_def)
  from int_of_str_returns [OF this assms(3)] t show ?thesis by (simp add: int_of_group_def)
qed

lemma extract_size_returns:
  assumes "\<forall>pattern \<in> set pats. digit_groups_only pattern \<and> {1, 2} \<subseteq> must_set pattern"
      and "within_digit_limit P (length message)"
  shows "\<exists>q. extract_size P pats message params = Inr q"
  using assms(1)
proof (induction pats)
  case Nil
  then show ?case by simp
next
  case (Cons pattern pats)
  show ?case
  proof (cases "re_search False P pattern message")
    case None
    with Cons show ?thesis by simp
  next
    case (Some g)
    from Cons.prems have "digit_groups_only pattern" "{1, 2} \<subseteq> must_set pattern" by simp_all
    with re_search_inv [OF Some] have ok: "ok_groups P (length message) g" and
      "1 \<in> dom g" "2 \<in> dom g" by auto
    from int_of_group_returns [OF ok this(2) assms(2)]
      int_of_group_returns [OF ok this(3) assms(2)]
    obtain w h where "int_of_group P (g 1) = Inr w" "int_of_group P (g 2) = Inr h" by blast
    with Some show ?thesis by simp
  qed
qed

lemma size_patterns_shape:
  "\<forall>pattern \<in> set size_patterns. digit_groups_only pattern \<and> {1, 2} \<subseteq> must_set pattern"
  by (simp add: size_patterns_def)

lemma extract_duration_returns:
  assumes "within_digit_limit P (length message)"
  shows "\<exists>q. extract_duration P message params = Inr q"
proof (cases "re_search True P duration_pattern message")
  case None
  then show ?thesis by (simp add: extract_duration_def)
next
  case (Some g)
  let ?a = "Seq [Group 1 (Plus Digit), Star Space, Lit 31186]"
  let ?b = "Seq ([Group 2 (Plus Digit), Star Space] @ map Lit (asc ''second'') @ [Opt (Lit 115)])"
  from re_search_match [OF Some] obtain t rest where
    t: "length t \<le> length message" "match_here True P duration_pattern t = Some (rest, g)"
    by blast
  from t(2) have "match_here True P ?a t = Some (rest, g) \<or> match_here True P ?b t = Some (rest, g)"
    unfolding match_here_def duration_pattern_def re_match.simps(10)
    by (auto split: option.splits)
  then have "(ok_groups P (length t) g \<and> 1 \<in> dom g) \<or> (ok_groups P (length t) g \<and> 2 \<in> dom g)"
  proof
    assume "match_here True P ?a t = Some (rest, g)"
    from match_here_inv [OF this] show ?thesis by (simp add: asc_def)
  next
    assume "match_here True P ?b t = Some (rest, g)"
    from match_here_inv [OF this] show ?thesis by (simp add: asc_def)
  qed
  then have ok: "ok_groups P (length message) g" and some: "1 \<in> dom g \<or> 2 \<in> dom g"
    using t(1) by (auto intro: ok_groups_mono)
  have "\<exists>u. group_or (g 1) (g 2) = Some u \<and> digit_text P (length message) u"
  proof (cases "g 1")
    case None
    with some obtain u where "g 2 = Some u" by auto
    with None ok show ?thesis by (auto simp: group_or_def ok_groups_def)
  next
    case (Some u)
    with ok have "digit_text P (length message) u" by (simp add: ok_groups_def)
    with Some show ?thesis by (auto simp: group_or_def digit_text_def)
  qed
  then obtain u where u: "group_or (g 1) (g 2) = Some u" "digit_text P (length message) u"
    by blast
  from int_of_str_returns [OF u(2) assms] obtain i where "int_of_str P u = Inr i" by blast
  with u(1) Some show ?thesis by (simp add: extract_duration_def int_of_group_def)
qed

lemma extract_parameters_returns:
  assumes "within_digit_limit P (length message)"
  shows "\<exists>params. extract_parameters P message = Inr params"
proof -
  from extract_duration_returns [OF assms] obtain p1 where
    "extract_duration P message Map.empty = Inr p1" by blast
  moreover from extract_size_returns [OF size_patterns_shape assms] obtain p2 where
    "extract_size P size_patterns message p1 = Inr p2" by blast
  ultimately show ?thesis by (simp add: extract_parameters_def)
qed

lemma extract_parameters_keys_of:
  assumes "extract_parameters P message = Inr params"
  shows "(\<exists>d. params (asc ''duration'') = Some (PInt d) \<and> 1 \<le> d \<and> d \<le> 10
            \<and> (re_search True P duration_pattern message = None \<longrightarrow> d = 5))
       \<and> (asc ''size'' \<in> dom params \<longleftrightarrow>
            list_ex (\<lambda>pattern. re_search False P pattern message \<noteq> None) size_patterns)
       \<and> (asc ''style'' \<in> dom params \<longleftrightarrow>
            list_ex (\<lambda>(style, keywords). any_in (rt_lower P message) keywords) style_keywords)
       \<and> dom params \<subseteq> {asc ''duration'', asc ''size'', asc ''style''}"
proof -
  from assms obtain p1 p2 where
    d: "extract_duration P message Map.empty = Inr p1" and
    s: "extract_size P size_patterns message p1 = Inr p2" and
    p: "params = extract_style P style_keywords message p2"
    by (auto simp: extract_parameters_def Let_def split: sum.splits)
  have dur: "params (asc ''duration'') = p1 (asc ''duration'')"
    using extract_style_other [of "asc ''duration''"] extract_size_other [OF s, of "asc ''duration''"]
    by (simp add: p key_distinct)
  have 1: "\<exists>d. params (asc ''duration'') = Some (PInt d) \<and> 1 \<le> d \<and> d \<le> 10
            \<and> (re_search True P duration_pattern message = None \<longrightarrow> d = 5)"
    unfolding dur using d by (rule extract_duration_key)
  have p1_size: "p1 (asc ''size'') = None"
    using extract_duration_other [OF d, of "asc ''size''"] by (simp add: key_distinct)
  have 2: "asc ''size'' \<in> dom params \<longleftrightarrow>
            list_ex (\<lambda>pattern. re_search False P pattern message \<noteq> None) size_patterns"
    using extract_size_key [OF s] extract_style_other [of "asc ''size''" P style_keywords message p2]
    by (simp add: p key_distinct p1_size dom_def)
  have p2_style: "p2 (asc ''style'') = None"
    using extract_size_other [OF s, of "asc ''style''"] extract_duration_other [OF d, of "asc ''style''"]
    by (simp add: key_distinct)
  have 3: "asc ''style'' \<in> dom params \<longleftrightarrow>
            list_ex (\<lambda>(style, keywords). any_in (rt_lower P message) keywords) style_keywords"
    using extract_style_key [of P style_keywords message p2]
    by (simp add: p p2_style dom_def)
  have 4: "dom params \<subseteq> {asc ''duration'', asc ''size'', asc ''style''}"
  proof
    fix k assume k: "k \<in> dom params"
    show "k \<in> {asc ''duration'', asc ''size'', asc ''style''}"
    proof (rule ccontr)
      assume n: "k \<notin> {asc ''duration'', asc ''size'', asc ''style''}"
      then have "params k = p2 k" by (simp add: p extract_style_other)
      also have "\<dots> = p1 k" using n extract_size_other [OF s, of k] by simp
      also have "\<dots> = None" using n extract_duration_other [OF d, of k] by simp
      finally show False using k by auto
    qed
  qed
  from 1 2 3 4 show ?thesis by blast
qed

text \<open>
  C4, as amended: on every message that has at most 640 characters, or at most as many
  characters as the digit limit of the interpreter, or when the interpreter has no
  digit limit, \<open>_extract_parameters\<close> returns a mapping (on another message it returns
  a mapping or raises). In every mapping that it returns the key \<open>duration\<close> is present,
  with a value from 1 to 10 that is the default 5 when no duration pattern was
  detected; the key \<open>size\<close> is present if and only if a size pattern was detected and
  the key \<open>style\<close> if and only if a style keyword was detected; there is no other key.
\<close>

theorem extract_parameters_keys:
  "case extract_parameters P message of
     Inl e \<Rightarrow> \<not> within_digit_limit P (length message)
   | Inr params \<Rightarrow>
       (\<exists>d. params (asc ''duration'') = Some (PInt d) \<and> 1 \<le> d \<and> d \<le> 10
            \<and> (re_search True P duration_pattern message = None \<longrightarrow> d = 5))
       \<and> (asc ''size'' \<in> dom params \<longleftrightarrow>
            list_ex (\<lambda>pattern. re_search False P pattern message \<noteq> None) size_patterns)
       \<and> (asc ''style'' \<in> dom params \<longleftrightarrow>
            list_ex (\<lambda>(style, keywords). any_in (rt_lower P message) keywords) style_keywords)
       \<and> dom params \<subseteq> {asc ''duration'', asc ''size'', asc ''style''}"
proof (cases "extract_parameters P message")
  case (Inl e)
  then have "\<not> within_digit_limit P (length message)"
    using extract_parameters_returns [of P message] by auto
  with Inl show ?thesis by simp
next
  case (Inr params)
  from extract_parameters_keys_of [OF this] Inr show ?thesis by simp
qed

lemma no_duration_search:
  "re_search True ascii_runtime duration_pattern (asc ''no duration mentioned'') = None"
  by (simp add: eval_search duration_pattern_def ascii_runtime_def)

lemma no_duration_params:
  "extract_parameters ascii_runtime (asc ''no duration mentioned'') = Inr [asc ''duration'' \<mapsto> PInt 5]"
  by (simp add: extract_parameters_def extract_duration_def eval_search duration_pattern_def ascii_runtime_def
     size_patterns_def int_of_group_def int_of_str_def str_of_int_def digits_of.simps style_keywords_def any_in_def)

text \<open>
  C4 as stated fails for the key \<open>duration\<close>: the message \<open>no duration mentioned\<close> has no
  match of the duration pattern, and the mapping has the key \<open>duration\<close>, with the
  default 5.
\<close>

theorem extract_parameters_duration_counterexample:
  "re_search True ascii_runtime duration_pattern (asc ''no duration mentioned'') = None
   \<and> (case extract_parameters ascii_runtime (asc ''no duration mentioned'') of
        Inl e \<Rightarrow> False
      | Inr params \<Rightarrow> asc ''duration'' \<in> dom params \<and> params (asc ''duration'') = Some (PInt 5))"
  by (simp add: no_duration_search no_duration_params)

lemma params_16_9:
  "extract_parameters ascii_runtime (asc ''16:9 video 3 seconds anime'') =
   Inr [asc ''duration'' \<mapsto> PInt 3, asc ''size'' \<mapsto> PStr (asc ''16x9''), asc ''style'' \<mapsto> PStr (asc ''anime'')]"
  by (simp add: extract_parameters_def extract_duration_def eval_search duration_pattern_def ascii_runtime_def
     size_patterns_def int_of_group_def int_of_str_def str_of_int_def digits_of.simps style_keywords_def any_in_def group_or_def)

theorem extract_parameters_keys_witness:
  "extract_parameters ascii_runtime (asc ''16:9 video 3 seconds anime'') =
     Inr [asc ''duration'' \<mapsto> PInt 3, asc ''size'' \<mapsto> PStr (asc ''16x9''),
          asc ''style'' \<mapsto> PStr (asc ''anime'')]
   \<and> list_ex (\<lambda>pattern. re_search False ascii_runtime pattern
                 (asc ''16:9 video 3 seconds anime'') \<noteq> None) size_patterns
   \<and> list_ex (\<lambda>(style, keywords).
                 any_in (rt_lower ascii_runtime (asc ''16:9 video 3 seconds anime'')) keywords)
        style_keywords"
  using extract_parameters_keys [of ascii_runtime "asc ''16:9 video 3 seconds anime''"]
    params_16_9
  by (simp add: key_distinct)


lemma extract_size_first_match:
  "extract_size P pats message params =
     (case spec_size P pats message of
        None \<Rightarrow> Inr params
      | Some (Inl e) \<Rightarrow> Inl e
      | Some (Inr t) \<Rightarrow> Inr (params(asc ''size'' \<mapsto> PStr t)))"
proof (induction pats)
  case Nil
  then show ?case by (simp add: spec_size_def)
next
  case (Cons pattern pats)
  show ?case
  proof (cases "re_search False P pattern message")
    case None
    then have "spec_size P (pattern # pats) message = spec_size P pats message"
      by (simp add: spec_size_def)
    with None Cons show ?thesis by simp
  next
    case (Some size_match)
    then have "spec_size P (pattern # pats) message = Some (spec_size_text P size_match)"
      by (simp add: spec_size_def)
    with Some show ?thesis
      by (simp add: spec_size_text_def split: sum.splits)
  qed
qed

lemma ascii_digits_simp:
  "ascii_digits P \<Longrightarrow> c < 128 \<Longrightarrow>
   rt_decimal P c = (if 48 \<le> c \<and> c \<le> 57 then Some (c - 48) else None)"
  by (simp add: ascii_digits_def)

lemmas eval_params = eval_search ascii_digits_simp extract_duration_def duration_pattern_def
  size_patterns_def int_of_group_def int_of_str_def str_of_int_def digits_of.simps group_or_def

lemma size_of_parameters:
  assumes "extract_duration P message Map.empty = Inr p1"
      and "extract_size P size_patterns message p1 = Inr p2"
  shows "case extract_parameters P message of
           Inl e \<Rightarrow> False
         | Inr params \<Rightarrow> params (asc ''size'') = p2 (asc ''size'')"
  using assms by (simp add: extract_parameters_def extract_style_other key_distinct)

lemma size_example_1:
  assumes "ascii_digits P"
  shows "case extract_parameters P (asc ''1920x1080 image'') of
           Inl e \<Rightarrow> False
         | Inr params \<Rightarrow> params (asc ''size'') = Some (PStr (asc ''1920x1080''))"
proof -
  have d: "extract_duration P (asc ''1920x1080 image'') Map.empty = Inr [asc ''duration'' \<mapsto> PInt 5]"
    using assms by (simp add: eval_params)
  have s: "extract_size P size_patterns (asc ''1920x1080 image'') [asc ''duration'' \<mapsto> PInt 5]
           = Inr [asc ''duration'' \<mapsto> PInt 5, asc ''size'' \<mapsto> PStr (asc ''1920x1080'')]"
    using assms by (simp add: eval_params)
  show ?thesis using size_of_parameters [OF d s] by (simp split: sum.splits)
qed

lemma size_example_2:
  assumes "ascii_digits P"
  shows "case extract_parameters P (asc ''16:9 video'') of
           Inl e \<Rightarrow> False
         | Inr params \<Rightarrow> params (asc ''size'') = Some (PStr (asc ''16x9''))"
proof -
  have d: "extract_duration P (asc ''16:9 video'') Map.empty = Inr [asc ''duration'' \<mapsto> PInt 5]"
    using assms by (simp add: eval_params)
  have s: "extract_size P size_patterns (asc ''16:9 video'') [asc ''duration'' \<mapsto> PInt 5]
           = Inr [asc ''duration'' \<mapsto> PInt 5, asc ''size'' \<mapsto> PStr (asc ''16x9'')]"
    using assms by (simp add: eval_params)
  show ?thesis using size_of_parameters [OF d s] by (simp split: sum.splits)
qed

lemma size_example_3:
  assumes "ascii_digits P"
  shows "case extract_parameters P (asc ''16:9 or 4x3'') of
           Inl e \<Rightarrow> False
         | Inr params \<Rightarrow> params (asc ''size'') = Some (PStr (asc ''4x3''))"
proof -
  have d: "extract_duration P (asc ''16:9 or 4x3'') Map.empty = Inr [asc ''duration'' \<mapsto> PInt 5]"
    using assms by (simp add: eval_params)
  have s: "extract_size P size_patterns (asc ''16:9 or 4x3'') [asc ''duration'' \<mapsto> PInt 5]
           = Inr [asc ''duration'' \<mapsto> PInt 5, asc ''size'' \<mapsto> PStr (asc ''4x3'')]"
    using assms by (simp add: eval_params)
  show ?thesis using size_of_parameters [OF d s] by (simp split: sum.splits)
qed

lemma ascii_runtime_digits: "ascii_digits ascii_runtime"
  by (simp add: ascii_digits_def ascii_runtime_def)

text \<open>
  C6: the size is that of the first of the three patterns, in the order \<open>WxH\<close>, \<open>W:H\<close>,
  \<open>W by H\<close>, that matches somewhere in the message, written as width, \<open>x\<close>, height.
  \<open>1920x1080 image\<close> gives \<open>1920x1080\<close> and \<open>16:9 video\<close> gives \<open>16x9\<close>; in
  \<open>16:9 or 4x3\<close> the first pattern wins although the second matches further left.
\<close>

theorem extract_size_order:
  assumes "ascii_digits P"
  shows "extract_size P size_patterns message params =
           (case spec_size P size_patterns message of
              None \<Rightarrow> Inr params
            | Some (Inl e) \<Rightarrow> Inl e
            | Some (Inr t) \<Rightarrow> Inr (params(asc ''size'' \<mapsto> PStr t)))
       \<and> (case extract_parameters P (asc ''1920x1080 image'') of
             Inl e \<Rightarrow> False
           | Inr params \<Rightarrow> params (asc ''size'') = Some (PStr (asc ''1920x1080'')))
       \<and> (case extract_parameters P (asc ''16:9 video'') of
             Inl e \<Rightarrow> False
           | Inr params \<Rightarrow> params (asc ''size'') = Some (PStr (asc ''16x9'')))
       \<and> (case extract_parameters P (asc ''16:9 or 4x3'') of
             Inl e \<Rightarrow> False
           | Inr params \<Rightarrow> params (asc ''size'') = Some (PStr (asc ''4x3'')))"
  using extract_size_first_match [of P size_patterns message params]
    size_example_1 [OF assms] size_example_2 [OF assms] size_example_3 [OF assms]
  by blast

theorem extract_size_order_witness:
  "ascii_digits ascii_runtime
   \<and> (case extract_parameters ascii_runtime (asc ''1920x1080 image'') of
         Inl e \<Rightarrow> False
       | Inr params \<Rightarrow> params (asc ''size'') = Some (PStr (asc ''1920x1080'')))
   \<and> (case extract_parameters ascii_runtime (asc ''16:9 video'') of
         Inl e \<Rightarrow> False
       | Inr params \<Rightarrow> params (asc ''size'') = Some (PStr (asc ''16x9'')))"
  using extract_size_order [OF ascii_runtime_digits, of "[]" Map.empty] ascii_runtime_digits
  by blast


subsection \<open>The classifier\<close>

lemma analyze_intent_no_files:
  "case analyze_intent fl P message 0 of
     Inl e \<Rightarrow> \<not> within_digit_limit P (length message)
   | Inr result \<Rightarrow>
       get_taskType result =
         Some (task_value (determine_task_type P (rt_lower P message) 0))"
proof (cases "extract_parameters P message")
  case (Inl e)
  then have "\<not> within_digit_limit P (length message)"
    using extract_parameters_returns [of P message] by auto
  with Inl show ?thesis
    by (simp add: analyze_intent_def generate_reasoning_def Let_def)
next
  case (Inr params)
  then show ?thesis
    by (simp add: analyze_intent_def generate_reasoning_def Let_def)
qed

text \<open>
  C3: with no file, \<open>_determine_task_type\<close> returns \<open>TEXT_TO_VIDEO\<close> when the message
  it is given contains a video keyword and \<open>TEXT_TO_IMAGE\<close> otherwise, so never one of
  the four task types that need a file. \<open>analyze_intent\<close>, which gives it the
  lower-cased message, returns the value of that task type; it raises only beyond the
  digit limit of \<open>int\<close>, never on a message of at most 640 characters.
\<close>

theorem determine_task_type_no_files:
  "determine_task_type P message 0 =
     (if any_in message video_gen then TEXT_TO_VIDEO else TEXT_TO_IMAGE)
   \<and> determine_task_type P message 0 \<notin>
       {IMAGE_TO_IMAGE, IMAGE_TO_VIDEO, FIRST_TO_LAST_FRAME, BATCH_IMAGE_GENERATION}
   \<and> (case analyze_intent fl P message 0 of
         Inl e \<Rightarrow> \<not> within_digit_limit P (length message)
       | Inr result \<Rightarrow>
           get_taskType result =
             Some (task_value (if any_in (rt_lower P message) video_gen
                               then TEXT_TO_VIDEO else TEXT_TO_IMAGE)))"
proof -
  have d: "\<And>m. determine_task_type P m 0 =
             (if any_in m video_gen then TEXT_TO_VIDEO else TEXT_TO_IMAGE)"
    by (simp add: determine_task_type_def Let_def)
  show ?thesis
    using analyze_intent_no_files [where fl = fl and P = P and message = message]
    by (simp add: d split: sum.splits)
qed

theorem determine_task_type_no_files_witness:
  "determine_task_type ascii_runtime (asc ''a video of a cat'') 0 = TEXT_TO_VIDEO
   \<and> determine_task_type ascii_runtime (asc ''a cat'') 0 = TEXT_TO_IMAGE
   \<and> (case analyze_intent (\<lambda>x. x) ascii_runtime (asc ''A Video'') 0 of
         Inl e \<Rightarrow> False
       | Inr result \<Rightarrow> get_taskType result = Some (asc ''text_to_video''))"
proof -
  have v: "any_in (asc ''a video of a cat'') video_gen"
    by (simp add: any_in_def video_gen_def asc_def)
  have n: "\<not> any_in (asc ''a cat'') video_gen"
    by (simp add: any_in_def video_gen_def asc_def)
  have l: "any_in (rt_lower ascii_runtime (asc ''A Video'')) video_gen"
    by (simp add: any_in_def video_gen_def asc_def ascii_runtime_def)
  have w: "within_digit_limit ascii_runtime (length (asc ''A Video''))"
    by (simp add: within_digit_limit_def asc_def)
  show ?thesis
    using determine_task_type_no_files
        [where P = ascii_runtime and message = "asc ''a video of a cat''" and fl = "\<lambda>x. x"]
      determine_task_type_no_files
        [where P = ascii_runtime and message = "asc ''a cat''" and fl = "\<lambda>x. x"]
      determine_task_type_no_files
        [where P = ascii_runtime and message = "asc ''A Video''" and fl = "\<lambda>x. x"]
      v n l w
    by (simp split: sum.splits)
qed

subsection \<open>The prompt extractor\<close>

lemmas eval_prompt = extract_prompt_def remove_words_def instruction_words_def replace.simps
  asc_def split_ws.simps strip_def lstrip_def rstrip_def isspace_def

lemma startswith_prefix: "startswith s w \<longleftrightarrow> take (length w) s = w"
  by (induction s w rule: startswith.induct) auto

lemma contains_startswith: "startswith s w \<Longrightarrow> contains s w"
  by (cases s) (auto simp: startswith_prefix)

lemma replace_absent: "w \<noteq> [] \<Longrightarrow> \<not> contains s w \<Longrightarrow> replace s w new = s"
proof (induction s)
  case Nil
  then show ?case by (simp add: replace.simps)
next
  case (Cons c cs)
  from Cons.prems have "\<not> startswith (c # cs) w" "\<not> contains cs w" by auto
  with Cons show ?case by (simp add: replace.simps [of "c # cs"])
qed

lemma remove_words_absent:
  "\<forall>w \<in> set ws. w \<noteq> [] \<and> \<not> contains message w \<Longrightarrow> remove_words ws message = message"
  by (induction ws) (auto simp: remove_words_def replace_absent)

lemma replace_leftmost:
  "w \<noteq> [] \<Longrightarrow> \<not> contains (a @ butlast w) w \<Longrightarrow> replace (a @ w @ b) w [] = a @ replace b w []"
proof (induction a)
  case Nil
  have "startswith (w @ b) w" by (simp add: startswith_prefix)
  with Nil show ?case by (simp add: replace.simps [of "w @ b"])
next
  case (Cons c a)
  have len: "length w \<le> length (c # a @ butlast w)" by simp
  have "\<not> startswith (c # a @ w @ b) w"
  proof
    assume "startswith (c # a @ w @ b) w"
    then have "take (length w) (c # a @ w @ b) = w" by (simp add: startswith_prefix)
    moreover have "take (length w) (c # a @ w @ b) = take (length w) (c # a @ butlast w)"
    proof -
      have "c # a @ w @ b = (c # a @ butlast w) @ (last w # b)"
        using Cons.prems(1) by simp
      then show ?thesis using len by (metis take_append diff_is_0_eq take_0 append_Nil2)
    qed
    ultimately have "startswith (c # a @ butlast w) w" by (simp add: startswith_prefix)
    then have "contains (c # a @ butlast w) w" by (rule contains_startswith)
    with Cons.prems(2) show False by simp
  qed
  moreover have "\<not> contains (a @ butlast w) w" using Cons.prems(2) by simp
  ultimately show ?case using Cons.IH Cons.prems(1)
    by (simp add: replace.simps [of "c # a @ w @ b"])
qed

lemma instruction_words_nonempty: "\<forall>w \<in> set instruction_words. w \<noteq> []"
  by (simp add: instruction_words_def asc_def)

lemma prompt_crehelpate:
  "\<not> contains (asc ''crehelpate'') (asc ''create'')"
  "replace (asc ''crehelpate'') (asc ''help'') [] = asc ''create''"
  "remove_words (take 8 instruction_words) (asc ''crehelpate'') = asc ''create''"
  "remove_words (take 9 instruction_words) (asc ''crehelpate'') = []"
  "extract_prompt (asc ''crehelpate'') = []"
  by (simp_all add: eval_prompt)

lemma prompt_drdrawaw: "extract_prompt (asc ''drdrawaw'') = asc ''draw''"
  by (simp add: eval_prompt)


lemma remove_words_split:
  assumes "k < length ws"
  shows "remove_words ws message =
           remove_words (drop (Suc k) ws) (replace (remove_words (take k ws) message) (ws ! k) [])"
proof -
  have "ws = take k ws @ [ws ! k] @ drop (Suc k) ws"
    using assms by (simp add: id_take_nth_drop)
  then have "remove_words ws message =
               remove_words (take k ws @ [ws ! k] @ drop (Suc k) ws) message" by simp
  also have "\<dots> = remove_words (drop (Suc k) ws)
                     (replace (remove_words (take k ws) message) (ws ! k) [])"
    unfolding remove_words_def foldl_append by simp
  finally show ?thesis .
qed

lemma prompt_created_not_removed:
  "remove_words (take 1 instruction_words) [32362, 24171, 25105, 35069, 20316]
     = [32362, 35069, 20316]"
  "contains [32362, 35069, 20316] [32362, 35069]"
  "[32362, 35069] = instruction_words ! 6"
  "extract_prompt [32362, 24171, 25105, 35069, 20316] = [32362]"
  by (simp_all add: eval_prompt)

lemma prompt_spaces: "extract_prompt (asc ''a  cat'') = asc ''a cat''"
  by (simp add: eval_prompt)

text \<open>
  C5 as stated fails: the message \<open>crehelpate\<close> does not contain \<open>create\<close>; the pass for
  \<open>help\<close>, the eighth word, leaves \<open>create\<close>, and the pass for \<open>create\<close>, the ninth word,
  matches and removes it, so that the prompt is empty.
\<close>

theorem extract_prompt_reintroduce_counterexample:
  "\<not> contains (asc ''crehelpate'') (asc ''create'')
   \<and> replace (asc ''crehelpate'') (asc ''help'') [] = asc ''create''
   \<and> remove_words (take 8 instruction_words) (asc ''crehelpate'') = asc ''create''
   \<and> remove_words (take 9 instruction_words) (asc ''crehelpate'') = []
   \<and> extract_prompt (asc ''crehelpate'') = []"
  using prompt_crehelpate by simp

text \<open>
  C5, as amended: \<open>_extract_prompt\<close> makes one \<open>str.replace\<close> pass per instruction
  word, in list order, each over the string that the passes before it left, and then
  normalises the whitespace: for every position \<open>k\<close> of the list, the prompt is the
  normalised result of the passes after \<open>k\<close> on the pass of word \<open>k\<close> on the result of the
  passes before \<open>k\<close>. A pass removes the leftmost occurrence of its word and goes on in
  the text after it. A message that contains no instruction word is only normalised.
  Removing a word can create a new occurrence of another instruction word that a later
  pass then matches and removes: \<open>crehelpate\<close> does not contain \<open>create\<close>, is \<open>create\<close>
  after the pass of \<open>help\<close> and empty after the pass of \<open>create\<close>. A created occurrence is
  not always removed: \<open>drdrawaw\<close> gives \<open>draw\<close>, and U+7E6A U+5E6B U+6211 U+88FD U+4F5C
  gives U+7E6A.
\<close>

theorem extract_prompt_passes:
  "(k < length instruction_words \<longrightarrow>
      extract_prompt message =
        strip (join (asc '' '') (split_ws
          (remove_words (drop (Suc k) instruction_words)
             (replace (remove_words (take k instruction_words) message)
                (instruction_words ! k) [])))))
   \<and> (w \<in> set instruction_words \<and> \<not> contains (a @ butlast w) w \<longrightarrow>
        replace (a @ w @ b) w [] = a @ replace b w [])
   \<and> ((\<forall>w \<in> set instruction_words. \<not> contains message w) \<longrightarrow>
        extract_prompt message = strip (join (asc '' '') (split_ws message)))
   \<and> \<not> contains (asc ''crehelpate'') (asc ''create'')
   \<and> remove_words (take 8 instruction_words) (asc ''crehelpate'') = asc ''create''
   \<and> remove_words (take 9 instruction_words) (asc ''crehelpate'') = []
   \<and> extract_prompt (asc ''crehelpate'') = []
   \<and> extract_prompt (asc ''drdrawaw'') = asc ''draw''
   \<and> extract_prompt [32362, 24171, 25105, 35069, 20316] = [32362]"
proof -
  have 1: "k < length instruction_words \<longrightarrow>
      extract_prompt message =
        strip (join (asc '' '') (split_ws
          (remove_words (drop (Suc k) instruction_words)
             (replace (remove_words (take k instruction_words) message)
                (instruction_words ! k) []))))"
    using remove_words_split [of k instruction_words message]
    by (simp add: extract_prompt_def Let_def)
  have 2: "w \<in> set instruction_words \<and> \<not> contains (a @ butlast w) w \<longrightarrow>
        replace (a @ w @ b) w [] = a @ replace b w []"
    using replace_leftmost [of w a b] instruction_words_nonempty by blast
  have 3: "(\<forall>w \<in> set instruction_words. \<not> contains message w) \<longrightarrow>
        extract_prompt message = strip (join (asc '' '') (split_ws message))"
    using remove_words_absent [of instruction_words message] instruction_words_nonempty
    by (auto simp: extract_prompt_def Let_def)
  from 1 2 3 prompt_crehelpate(1,3,4,5) prompt_drdrawaw prompt_created_not_removed(4)
  show ?thesis by blast
qed

theorem extract_prompt_passes_witness:
  "(7::nat) < length instruction_words
   \<and> instruction_words ! 7 = asc ''help''
   \<and> extract_prompt (asc ''a  cat'') =
        strip (join (asc '' '') (split_ws
          (remove_words (drop 8 instruction_words)
             (replace (remove_words (take 7 instruction_words) (asc ''a  cat''))
                (asc ''help'') []))))
   \<and> asc ''draw'' \<in> set instruction_words
   \<and> replace (asc ''a '' @ asc ''draw'' @ asc '' cat'') (asc ''draw'') [] = asc ''a  cat''
   \<and> extract_prompt (asc ''a  cat'') = asc ''a cat''"
  using extract_prompt_passes
    [where k = 7 and message = "asc ''a  cat''" and w = "asc ''draw''" and a = "asc ''a ''"
       and b = "asc '' cat''"]
  by (simp add: eval_prompt)

end
